theory Spec2Isabelle
  imports Main "HOL-Library.AList"
begin

section \<open>The offline service worker \<open>www/sw.js\<close>\<close>

text \<open>
  The worker is event driven: every handler is an \<open>async\<close> function over the host's
  Cache Storage, the network, a key/value store and a broadcast channel. One handler is
  modelled as one function from the state before it to the state after it, with the
  \<open>await\<close> points taken in program order. The host (scope, network, connected windows,
  regular-expression engine, storage quota, random numbers) is a record of parameters;
  what the worker itself changes (the caches, the key/value store) and what it does to
  the outside (fetches, broadcasts, console output, storage calls) is the state, the
  latter as a chronological trace.
\<close>

subsection \<open>Values of the host\<close>

datatype request_mode = Navigate | Cors | NoCors | SameOrigin

datatype cache_mode = Default | NoStore

text \<open>
  A request. \<open>req_search_extra\<close> holds what \<open>url.search += n\<close> has appended to
  the query string of \<open>req_url\<close>, in order; the URL itself is kept apart from it.
\<close>

record request =
  req_url :: string
  req_mode :: request_mode
  req_search_extra :: "nat list"
  req_cache :: cache_mode

text \<open>The body of \<open>offline.js\<close>: \<open>data.version\<close>, \<open>data.fileList\<close>, \<open>data.lazyLoad\<close>.\<close>

record manifest =
  version :: string
  fileList :: "string list"
  lazyLoad :: "string list option"

text \<open>A response; \<open>json\<close> is what \<open>response.json()\<close> yields, \<open>None\<close> when it rejects.\<close>

record response =
  ok :: bool
  status :: nat
  statusText :: string
  resp_url :: string
  json :: "manifest option"

datatype client_type = Window | Worker | SharedWorker

record client =
  client_url :: string
  client_controlled :: bool
  client_kind :: client_type

datatype error =
    NetworkError
  | NotAllFetched
  | ManifestNotOk nat string
  | JsonSyntaxError
  | PutRejected string
  | RegExpSyntaxError string

record message =
  msg_type :: string
  msg_version :: "string option"

datatype console =
    ErrorMatchingLazyLoad error
  | ErrorFetching string nat string
  | ErrorWritingCache error
  | LogUpdatePending
  | LogUpToDate
  | LogCaching nat
  | LogUpdateReady
  | LogOfflineReady
  | LogUpdatingToNew
  | WarnUpdateCheckFailed error
  | WarnCaching string error

datatype event =
    Fetch request
  | PostMessage message
  | ConsoleError console
  | ConsoleLog console
  | ConsoleWarn console
  | CachesOpen string
  | CachesDelete string
  | CachePut string string

text \<open>
  The host. \<open>network\<close> answers a request with a response or rejects (\<open>None\<close>);
  \<open>RegExp\<close> compiles a pattern to its \<open>test\<close> or throws (\<open>None\<close>);
  \<open>put_rejects name key\<close> says that \<open>cache.put\<close> of that key into that cache
  rejects (quota); \<open>resolve\<close> is what \<open>new Request(string).url\<close> makes of a
  string; \<open>url_origin\<close> is \<open>new URL(u).origin\<close>; \<open>math_random i\<close> is the
  number behind the \<open>i\<close>th call of \<open>Math.random()\<close>; the worker uses it
  below 1000000. \<open>clients\<close> are the clients of the worker's origin.
\<close>

record host =
  scope :: string
  origin :: string
  haveBroadcastChannel :: bool
  network :: "request \<Rightarrow> response option"
  RegExp :: "string \<Rightarrow> (string \<Rightarrow> bool) option"
  put_rejects :: "string \<Rightarrow> string \<Rightarrow> bool"
  resolve :: "string \<Rightarrow> string"
  url_origin :: "string \<Rightarrow> string"
  clients :: "client list"
  math_random :: "nat \<Rightarrow> nat"

text \<open>
  The state. \<open>caches\<close> is Cache Storage in creation order, each cache a list of
  (request URL, response); \<open>localforage\<close> is \<open>None\<close> when the library is not
  loaded (\<open>typeof localforage === "undefined"\<close>).
\<close>

record state =
  caches :: "(string \<times> (string \<times> response) list) list"
  localforage :: "(string \<times> string list) list option"
  trace :: "event list"
  randoms_used :: nat

subsection \<open>Constants\<close>

definition OFFLINE_DATA_FILE :: string where
  "OFFLINE_DATA_FILE = ''offline.js''"

definition CACHE_NAME_PREFIX :: string where
  "CACHE_NAME_PREFIX = ''c2offline''"

definition LAZYLOAD_KEYNAME :: string where
  "LAZYLOAD_KEYNAME = ''''"

subsection \<open>Host primitives\<close>

definition emit :: "event \<Rightarrow> state \<Rightarrow> state" where
  "emit e s = s\<lparr>trace := trace s @ [e]\<rparr>"

definition startsWith :: "string \<Rightarrow> string \<Rightarrow> bool" where
  "startsWith s p = (take (length p) s = p)"

definition caches_keys :: "state \<Rightarrow> string list" where
  "caches_keys s = map fst (caches s)"

definition caches_has :: "string \<Rightarrow> state \<Rightarrow> bool" where
  "caches_has name s = (name \<in> set (caches_keys s))"

text \<open>\<open>caches.open\<close> creates the cache, after all existing ones, when there is none.\<close>

definition caches_open :: "string \<Rightarrow> state \<Rightarrow> state" where
  "caches_open name s =
     emit (CachesOpen name)
       (if caches_has name s then s else s\<lparr>caches := caches s @ [(name, [])]\<rparr>)"

definition caches_delete :: "string \<Rightarrow> state \<Rightarrow> state" where
  "caches_delete name s =
     emit (CachesDelete name) (s\<lparr>caches := filter (\<lambda>c. fst c \<noteq> name) (caches s)\<rparr>)"

text \<open>
  \<open>cache.match\<close> and \<open>cache.put\<close> find the entries of a request by its URL, and they
  compare URLs with the fragment (what follows the first \<open>#\<close>) left out: a request for
  \<open>https://a.io/#top\<close> matches the entry stored for \<open>https://a.io/\<close>. An entry keeps
  the URL it was stored with.
\<close>

definition without_fragment :: "string \<Rightarrow> string" where
  "without_fragment u = takeWhile (\<lambda>c. c \<noteq> CHR ''#'') u"

definition same_resource :: "string \<Rightarrow> string \<Rightarrow> bool" where
  "same_resource a b = (without_fragment a = without_fragment b)"

text \<open>\<open>cache.match\<close> answers with the first entry that matches.\<close>

definition cache_match :: "string \<Rightarrow> string \<Rightarrow> state \<Rightarrow> response option" where
  "cache_match name key s =
     (case map_of (caches s) name of
        None \<Rightarrow> None
      | Some entries \<Rightarrow> map_option snd (find (\<lambda>e. same_resource (fst e) key) entries))"

text \<open>
  \<open>cache.put\<close>: rejects when the host says so, else removes every entry that matches the
  request and adds the new one at the end. The error it returns is the rejection,
  \<open>None\<close> when it resolves.
\<close>

definition put_entry :: "string \<Rightarrow> response \<Rightarrow> (string \<times> response) list \<Rightarrow> (string \<times> response) list" where
  "put_entry key r entries = filter (\<lambda>e. \<not> same_resource (fst e) key) entries @ [(key, r)]"

definition cache_put :: "host \<Rightarrow> string \<Rightarrow> string \<Rightarrow> response \<Rightarrow> state \<Rightarrow> error option \<times> state" where
  "cache_put h name key r s =
     (if put_rejects h name key then (Some (PutRejected key), s)
      else (None,
        emit (CachePut name key)
          (s\<lparr>caches := map (\<lambda>c. if fst c = name then (fst c, put_entry key r (snd c)) else c)
                          (caches s)\<rparr>)))"

text \<open>\<open>clients.matchAll({includeUncontrolled, type})\<close>; the defaults are \<open>false\<close> and \<open>"window"\<close>.\<close>

definition clients_matchAll :: "host \<Rightarrow> bool \<Rightarrow> client_type \<Rightarrow> client list" where
  "clients_matchAll h includeUncontrolled kind =
     filter (\<lambda>c. client_kind c = kind \<and> (includeUncontrolled \<or> client_controlled c)) (clients h)"

definition fetch :: "host \<Rightarrow> request \<Rightarrow> state \<Rightarrow> response option \<times> state" where
  "fetch h r s = (network h r, emit (Fetch r) s)"

text \<open>\<open>new Request(string)\<close>.\<close>

definition Request :: "host \<Rightarrow> string \<Rightarrow> request" where
  "Request h u = \<lparr>req_url = resolve h u, req_mode = Cors, req_search_extra = [], req_cache = Default\<rparr>"

subsection \<open>Utility methods\<close>

text \<open>
  \<open>PostBroadcastMessage\<close> posts after a fixed delay of three seconds, the same for
  every message, so the order of the posts is the order of the calls; the trace records
  the posts in that order.
\<close>

definition PostBroadcastMessage :: "host \<Rightarrow> message \<Rightarrow> state \<Rightarrow> state" where
  "PostBroadcastMessage h m s = (if \<not> haveBroadcastChannel h then s else emit (PostMessage m) s)"

definition Broadcast :: "host \<Rightarrow> string \<Rightarrow> state \<Rightarrow> state" where
  "Broadcast h type s = PostBroadcastMessage h \<lparr>msg_type = type, msg_version = None\<rparr> s"

definition BroadcastDownloadingUpdate :: "host \<Rightarrow> string \<Rightarrow> state \<Rightarrow> state" where
  "BroadcastDownloadingUpdate h v s =
     PostBroadcastMessage h \<lparr>msg_type = ''downloading-update'', msg_version = Some v\<rparr> s"

definition BroadcastUpdateReady :: "host \<Rightarrow> string \<Rightarrow> state \<Rightarrow> state" where
  "BroadcastUpdateReady h v s =
     PostBroadcastMessage h \<lparr>msg_type = ''update-ready'', msg_version = Some v\<rparr> s"

text \<open>
  The \<open>for\<close> loop of \<open>IsUrlInLazyLoadList\<close>, inside its \<open>try\<close>: \<open>Inr True\<close>
  is the \<open>return true\<close>, \<open>Inr False\<close> the end of the list, \<open>Inl\<close> what
  \<open>new RegExp\<close> throws.
\<close>

fun lazy_scan :: "host \<Rightarrow> string \<Rightarrow> string list \<Rightarrow> error + bool" where
  "lazy_scan h url [] = Inr False"
| "lazy_scan h url (lazyLoadRegex # rest) =
     (case RegExp h lazyLoadRegex of
        None \<Rightarrow> Inl (RegExpSyntaxError lazyLoadRegex)
      | Some test \<Rightarrow> if test url then Inr True else lazy_scan h url rest)"

definition IsUrlInLazyLoadList :: "host \<Rightarrow> string \<Rightarrow> string list option \<Rightarrow> state \<Rightarrow> bool \<times> state" where
  "IsUrlInLazyLoadList h url lazyLoadList s =
     (case lazyLoadList of
        None \<Rightarrow> (False, s)
      | Some patterns \<Rightarrow>
          (case lazy_scan h url patterns of
             Inr found \<Rightarrow> (found, s)
           | Inl err \<Rightarrow> (False, emit (ConsoleError (ErrorMatchingLazyLoad err)) s)))"

definition WriteLazyLoadListToStorage :: "string list \<Rightarrow> state \<Rightarrow> state" where
  "WriteLazyLoadListToStorage lazyLoadList s =
     (case localforage s of
        None \<Rightarrow> s
      | Some kv \<Rightarrow> s\<lparr>localforage := Some (AList.update LAZYLOAD_KEYNAME lazyLoadList kv)\<rparr>)"

text \<open>\<open>None\<close> is the \<open>null\<close> that \<open>getItem\<close> gives for a key never set.\<close>

definition ReadLazyLoadListFromStorage :: "state \<Rightarrow> string list option" where
  "ReadLazyLoadListFromStorage s =
     (case localforage s of
        None \<Rightarrow> Some []
      | Some kv \<Rightarrow> map_of kv LAZYLOAD_KEYNAME)"

definition GetCacheBaseName :: "host \<Rightarrow> string" where
  "GetCacheBaseName h = CACHE_NAME_PREFIX @ ''-'' @ scope h"

definition GetCacheVersionName :: "host \<Rightarrow> string \<Rightarrow> string" where
  "GetCacheVersionName h v = GetCacheBaseName h @ ''-v'' @ v"

definition GetAvailableCacheNames :: "host \<Rightarrow> state \<Rightarrow> string list" where
  "GetAvailableCacheNames h s =
     filter (\<lambda>n. startsWith n (GetCacheBaseName h)) (caches_keys s)"

definition IsUpdatePending :: "host \<Rightarrow> state \<Rightarrow> bool" where
  "IsUpdatePending h s = (length (GetAvailableCacheNames h s) \<ge> 2)"

text \<open>The \<open>for\<close> loop of \<open>GetMainPageUrl\<close> over the matched clients.\<close>

fun main_page_scan :: "string \<Rightarrow> client list \<Rightarrow> string" where
  "main_page_scan sc [] = ''''"
| "main_page_scan sc (c # cs) =
     (let url = client_url c;
          url = (if startsWith url sc then drop (length sc) url else url)
      in if url \<noteq> '''' \<and> url \<noteq> ''/''
         then (if startsWith url ''?'' then ''/'' @ url else url)
         else main_page_scan sc cs)"

definition GetMainPageUrl :: "host \<Rightarrow> string" where
  "GetMainPageUrl h = main_page_scan (scope h) (clients_matchAll h True Window)"

text \<open>
  \<open>fetchWithBypass\<close>: a string is made a request first; with \<open>bypassCache\<close> a fresh
  random number goes onto the query string and the fetch is \<open>cache: "no-store"\<close>, with
  the mode of the request.
\<close>

definition fetchWithBypass :: "host \<Rightarrow> string + request \<Rightarrow> bool \<Rightarrow> state \<Rightarrow> response option \<times> state" where
  "fetchWithBypass h req bypassCache s =
     (let request = (case req of Inl u \<Rightarrow> Request h u | Inr r \<Rightarrow> r)
      in if bypassCache
         then fetch h
                (request\<lparr>req_search_extra :=
                            req_search_extra request @ [math_random h (randoms_used s) mod 1000000],
                         req_cache := NoStore\<rparr>)
                (s\<lparr>randoms_used := Suc (randoms_used s)\<rparr>)
         else fetch h request s)"

subsection \<open>Choosing the cache to serve from\<close>

text \<open>\<open>a[0]\<close> and \<open>a[a.length - 1]\<close>: \<open>None\<close> is the \<open>undefined\<close> of an empty array.\<close>

definition first_name :: "string list \<Rightarrow> string option" where
  "first_name names = (case names of [] \<Rightarrow> None | n # _ \<Rightarrow> Some n)"

definition last_name :: "string list \<Rightarrow> string option" where
  "last_name names = (case names of [] \<Rightarrow> None | _ # _ \<Rightarrow> Some (last names))"

definition GetCacheNameToUse :: "host \<Rightarrow> string list \<Rightarrow> bool \<Rightarrow> state \<Rightarrow> string option \<times> state" where
  "GetCacheNameToUse h availableCacheNames doUpdateCheck s =
     (if length availableCacheNames = 1 \<or> \<not> doUpdateCheck
      then (first_name availableCacheNames, s)
      else let allClients = clients_matchAll h False Window
           in if length allClients > 1
              then (first_name availableCacheNames, s)
              else let latestCacheName = last_name availableCacheNames;
                       s1 = emit (ConsoleLog LogUpdatingToNew) s
                   in (latestCacheName,
                       foldl (\<lambda>t c. caches_delete c t) s1 (butlast availableCacheNames)))"

subsection \<open>Creating a cache from a file list\<close>

text \<open>
  \<open>fileList.map(url => fetchWithBypass(url, bypassCache))\<close>: every fetch is issued,
  in list order, before any result is looked at.
\<close>

fun fetch_all :: "host \<Rightarrow> string list \<Rightarrow> bool \<Rightarrow> state \<Rightarrow> response option list \<times> state" where
  "fetch_all h [] bypassCache s = ([], s)"
| "fetch_all h (u # us) bypassCache s =
     (case fetchWithBypass h (Inl u) bypassCache s of
        (r, s1) \<Rightarrow> (case fetch_all h us bypassCache s1 of (rs, s2) \<Rightarrow> (r # rs, s2)))"

text \<open>The loop over the responses that logs every one that is not \<open>ok\<close>.\<close>

fun log_not_ok :: "response list \<Rightarrow> state \<Rightarrow> state" where
  "log_not_ok [] s = s"
| "log_not_ok (r # rs) s =
     log_not_ok rs
       (if \<not> ok r
        then emit (ConsoleError (ErrorFetching (resp_url r) (status r) (statusText r))) s
        else s)"

text \<open>
  \<open>responses.map((response, i) => cache.put(fileList[i], response))\<close>: every put is
  started; the result is the first rejection, if any (what \<open>Promise.all\<close> rejects with).
\<close>

fun put_all :: "host \<Rightarrow> string \<Rightarrow> (string \<times> response) list \<Rightarrow> state \<Rightarrow> error option \<times> state" where
  "put_all h name [] s = (None, s)"
| "put_all h name ((u, r) # rest) s =
     (case cache_put h name (resolve h u) r s of
        (e, s1) \<Rightarrow>
          (case put_all h name rest s1 of
             (e', s2) \<Rightarrow> ((case e of Some err \<Rightarrow> Some err | None \<Rightarrow> e'), s2)))"

text \<open>
  \<open>CreateCacheFromFileList\<close>; the error is what the function throws, \<open>None\<close> when
  it returns. A fetch that rejects makes the first \<open>Promise.all\<close> reject.
\<close>

definition CreateCacheFromFileList :: "host \<Rightarrow> string \<Rightarrow> string list \<Rightarrow> bool \<Rightarrow> state \<Rightarrow> error option \<times> state" where
  "CreateCacheFromFileList h cacheName files bypassCache s =
     (case fetch_all h files bypassCache s of
        (results, s1) \<Rightarrow>
          (case those results of
             None \<Rightarrow> (Some NetworkError, s1)
           | Some responses \<Rightarrow>
               (let allOk = list_all ok responses;
                    s2 = log_not_ok responses s1
                in if \<not> allOk then (Some NotAllFetched, s2)
                   else (case put_all h cacheName (zip files responses) (caches_open cacheName s2) of
                           (None, s3) \<Rightarrow> (None, s3)
                         | (Some err, s3) \<Rightarrow>
                             (Some err,
                              caches_delete cacheName
                                (emit (ConsoleError (ErrorWritingCache err)) s3))))))"

subsection \<open>The update check\<close>

text \<open>
  Lines 266 to 269: \<open>fileList.unshift("./")\<close>, then the main page URL in front of it
  when there is one and \<open>indexOf\<close> does not find it in the list.
\<close>

definition add_implicit_pages :: "string \<Rightarrow> string list \<Rightarrow> string list" where
  "add_implicit_pages mainPageUrl files =
     (let files1 = ''./'' # files
      in if mainPageUrl \<noteq> '''' \<and> mainPageUrl \<notin> set files1 then mainPageUrl # files1 else files1)"

text \<open>
  Lines 271 to 282, before the files are fetched: the count is logged, the download is
  announced, and the lazy-load list is written when the manifest has one (an empty array
  is truthy, so it is written too).
\<close>

definition announce_download :: "host \<Rightarrow> bool \<Rightarrow> manifest \<Rightarrow> string list \<Rightarrow> state \<Rightarrow> state" where
  "announce_download h isFirst data files s1 =
     (let s2 = emit (ConsoleLog (LogCaching (length files))) s1;
          s3 = (if isFirst then Broadcast h ''downloading'' s2
                else BroadcastDownloadingUpdate h (version data) s2)
      in case lazyLoad data of
           None \<Rightarrow> s3
         | Some lazyLoadList \<Rightarrow> WriteLazyLoadListToStorage lazyLoadList s3)"

text \<open>Lines 285 to 296, after the cache has been written.\<close>

definition announce_ready :: "host \<Rightarrow> manifest \<Rightarrow> state \<Rightarrow> state" where
  "announce_ready h data s5 =
     (if IsUpdatePending h s5
      then BroadcastUpdateReady h (version data) (emit (ConsoleLog LogUpdateReady) s5)
      else Broadcast h ''offline-ready'' (emit (ConsoleLog LogOfflineReady) s5))"

text \<open>The body of the \<open>try\<close> of \<open>UpdateCheck\<close>, with what it throws.\<close>

definition UpdateCheck_try :: "host \<Rightarrow> bool \<Rightarrow> state \<Rightarrow> error option \<times> state" where
  "UpdateCheck_try h isFirst s =
     (case fetchWithBypass h (Inl OFFLINE_DATA_FILE) True s of
        (None, s1) \<Rightarrow> (Some NetworkError, s1)
      | (Some resp, s1) \<Rightarrow>
          if \<not> ok resp then (Some (ManifestNotOk (status resp) (statusText resp)), s1)
          else (case json resp of
             None \<Rightarrow> (Some JsonSyntaxError, s1)
           | Some data \<Rightarrow>
               (let currentCacheName = GetCacheVersionName h (version data);
                    cacheExists = caches_has currentCacheName s1
                in if cacheExists
                   then (if IsUpdatePending h s1
                         then (None, Broadcast h ''update-pending'' (emit (ConsoleLog LogUpdatePending) s1))
                         else (None, Broadcast h ''up-to-date'' (emit (ConsoleLog LogUpToDate) s1)))
                   else
                     (let mainPageUrl = GetMainPageUrl h;
                          files = add_implicit_pages mainPageUrl (fileList data);
                          s4 = announce_download h isFirst data files s1
                      in case CreateCacheFromFileList h currentCacheName files (\<not> isFirst) s4 of
                           (Some err, s5) \<Rightarrow> (Some err, s5)
                         | (None, s5) \<Rightarrow> (None, announce_ready h data s5)))))"

definition UpdateCheck :: "host \<Rightarrow> bool \<Rightarrow> state \<Rightarrow> state" where
  "UpdateCheck h isFirst s =
     (case UpdateCheck_try h isFirst s of
        (None, s') \<Rightarrow> s'
      | (Some err, s') \<Rightarrow> emit (ConsoleWarn (WarnUpdateCheckFailed err)) s')"

subsection \<open>Handling a fetch\<close>

text \<open>
  \<open>HandleFetch\<close>; \<open>Inl\<close> is a rejected promise. \<open>caches.open\<close> takes the name as
  a string, so an \<open>undefined\<close> name would open the cache \<open>"undefined"\<close>.
\<close>

definition HandleFetch :: "host \<Rightarrow> request \<Rightarrow> bool \<Rightarrow> state \<Rightarrow> (error + response) \<times> state" where
  "HandleFetch h request doUpdateCheck s =
     (let availableCacheNames = GetAvailableCacheNames h s
      in if availableCacheNames = []
         then (case fetch h request s of
                 (None, s1) \<Rightarrow> (Inl NetworkError, s1)
               | (Some r, s1) \<Rightarrow> (Inr r, s1))
         else
           (case GetCacheNameToUse h availableCacheNames doUpdateCheck s of
              (chosen, s1) \<Rightarrow>
                (let useCacheName = (case chosen of None \<Rightarrow> ''undefined'' | Some n \<Rightarrow> n);
                     s2 = caches_open useCacheName s1
                 in case cache_match useCacheName (req_url request) s2 of
                      Some cachedResponse \<Rightarrow> (Inr cachedResponse, s2)
                    | None \<Rightarrow>
                        (case fetch h request s2 of
                           (None, s3) \<Rightarrow> (Inl NetworkError, s3)
                         | (Some fetchResponse, s3) \<Rightarrow>
                             (case IsUrlInLazyLoadList h (req_url request)
                                     (ReadLazyLoadListFromStorage s3) s3 of
                                (False, s4) \<Rightarrow> (Inr fetchResponse, s4)
                              | (True, s4) \<Rightarrow>
                                  (case cache_put h useCacheName (req_url request) fetchResponse s4 of
                                     (None, s5) \<Rightarrow> (Inr fetchResponse, s5)
                                   | (Some err, s5) \<Rightarrow>
                                       (Inr fetchResponse,
                                        emit (ConsoleWarn (WarnCaching (req_url request) err)) s5)))))))"

subsection \<open>The event listeners\<close>

definition on_install :: "host \<Rightarrow> state \<Rightarrow> state" where
  "on_install h s = UpdateCheck h True s"

text \<open>
  The \<open>fetch\<close> listener: \<open>None\<close> when it returns without \<open>respondWith\<close>. The
  update check of a navigation runs once the response promise has resolved.
\<close>

definition on_fetch :: "host \<Rightarrow> request \<Rightarrow> state \<Rightarrow> (error + response) option \<times> state" where
  "on_fetch h request s =
     (if url_origin h (req_url request) \<noteq> origin h then (None, s)
      else let doUpdateCheck = (req_mode request = Navigate)
           in case HandleFetch h request doUpdateCheck s of
                (r, s1) \<Rightarrow>
                  (Some r,
                   if doUpdateCheck
                   then (case r of Inr _ \<Rightarrow> UpdateCheck h False s1 | Inl _ \<Rightarrow> s1)
                   else s1))"

subsection \<open>What a trace shows\<close>

text \<open>The requests sent to the network, and the caches opened, in order.\<close>

definition fetches :: "event list \<Rightarrow> request list" where
  "fetches t = concat (map (\<lambda>e. case e of Fetch r \<Rightarrow> [r] | _ \<Rightarrow> []) t)"

definition opened :: "event list \<Rightarrow> string list" where
  "opened t = concat (map (\<lambda>e. case e of CachesOpen n \<Rightarrow> [n] | _ \<Rightarrow> []) t)"

definition deleted :: "event list \<Rightarrow> string list" where
  "deleted t = concat (map (\<lambda>e. case e of CachesDelete n \<Rightarrow> [n] | _ \<Rightarrow> []) t)"

text \<open>
  A cache-bypassing fetch (a random number on the query string, HTTP caching off) and an
  ordinary one.
\<close>

definition bypassing :: "request \<Rightarrow> bool" where
  "bypassing r = (req_cache r = NoStore \<and> req_search_extra r \<noteq> [])"

definition ordinary :: "request \<Rightarrow> bool" where
  "ordinary r = (req_cache r = Default \<and> req_search_extra r = [])"

text \<open>
  The request that \<open>fetchWithBypass(OFFLINE_DATA_FILE, true)\<close> sends from a state: the
  manifest's URL with the next random number on its query string, \<open>no-store\<close>.
\<close>

definition manifest_request :: "host \<Rightarrow> state \<Rightarrow> request" where
  "manifest_request h s =
     \<lparr>req_url = resolve h OFFLINE_DATA_FILE, req_mode = Cors,
      req_search_extra = [math_random h (randoms_used s) mod 1000000], req_cache = NoStore\<rparr>"

text \<open>
  The URLs a cache holds an entry for, as the cache tells URLs apart: without their
  fragments.
\<close>

definition cache_urls :: "string \<Rightarrow> state \<Rightarrow> string set" where
  "cache_urls name s =
     (case map_of (caches s) name of
        None \<Rightarrow> {}
      | Some entries \<Rightarrow> without_fragment ` fst ` set entries)"

subsection \<open>The specification's wording of two steps\<close>

definition compiles :: "host \<Rightarrow> string \<Rightarrow> bool" where
  "compiles h p = (RegExp h p \<noteq> None)"

text \<open>
  The lazy-load test as the specification words it: each pattern is tried on its own, one
  that does not compile counts as not matching, and the others are still tried.
\<close>

definition matches_some_pattern :: "host \<Rightarrow> string \<Rightarrow> string list \<Rightarrow> bool" where
  "matches_some_pattern h url patterns =
     list_ex (\<lambda>p. case RegExp h p of None \<Rightarrow> False | Some test \<Rightarrow> test url) patterns"


text \<open>
  The file list as the specification words it: the root path in front, and the main page
  URL in front of that whenever one was found.
\<close>

definition prepend_root_and_main_page :: "string \<Rightarrow> string list \<Rightarrow> string list" where
  "prepend_root_and_main_page mainPageUrl files =
     (if mainPageUrl \<noteq> '''' then [mainPageUrl] else []) @ ''./'' # files"

subsection \<open>A deployment at \<open>https://a.io/\<close>, for concrete runs\<close>

definition demo_manifest :: manifest where
  "demo_manifest = \<lparr>version = ''2'', fileList = [''a.js'', ''b.js''], lazyLoad = Some [''[.]png$'']\<rparr>"

definition demo_response :: "string \<Rightarrow> response" where
  "demo_response u = \<lparr>ok = True, status = 200, statusText = ''OK'', resp_url = u, json = None\<rparr>"

text \<open>A server that has \<open>offline.js\<close>, answers 404 for \<open>gone.js\<close> and 200 for the rest.\<close>

definition demo_network :: "request \<Rightarrow> response option" where
  "demo_network r =
     (if req_url r = ''https://a.io/offline.js''
      then Some ((demo_response (req_url r))\<lparr>json := Some demo_manifest\<rparr>)
      else if req_url r = ''https://a.io/gone.js''
      then Some \<lparr>ok = False, status = 404, statusText = ''Not Found'', resp_url = req_url r, json = None\<rparr>
      else Some (demo_response (req_url r)))"

text \<open>
  The two patterns of the concrete runs as the host's \<open>RegExp\<close> treats them: \<open>[\<close>
  is a syntax error, \<open>[.]png$\<close> tests for the ending \<open>.png\<close>. No run below uses
  another pattern.
\<close>

definition demo_RegExp :: "string \<Rightarrow> (string \<Rightarrow> bool) option" where
  "demo_RegExp p =
     (if p = ''['' then None
      else if p = ''[.]png$'' then Some (\<lambda>u. drop (length u - 4) u = ''.png'')
      else Some (\<lambda>u. False))"

definition demo_resolve :: "string \<Rightarrow> string" where
  "demo_resolve u =
     (if startsWith u ''https://'' then u
      else if startsWith u ''./'' then ''https://a.io/'' @ drop 2 u
      else if startsWith u ''/'' then ''https://a.io'' @ u
      else ''https://a.io/'' @ u)"

definition demo_host :: host where
  "demo_host =
     \<lparr>scope = ''https://a.io/'',
      origin = ''https://a.io'',
      haveBroadcastChannel = True,
      network = demo_network,
      RegExp = demo_RegExp,
      put_rejects = (\<lambda>name key. key = ''https://a.io/big.js''),
      resolve = demo_resolve,
      url_origin = (\<lambda>u. if startsWith u ''https://a.io/'' then ''https://a.io'' else ''null''),
      clients = [\<lparr>client_url = ''https://a.io/index.html'', client_controlled = True,
                  client_kind = Window\<rparr>],
      math_random = (\<lambda>i. 7 + i)\<rparr>"

definition G1 :: string where
  "G1 = ''c2offline-https://a.io/-v1''"

definition G2 :: string where
  "G2 = ''c2offline-https://a.io/-v2''"

definition demo_state :: state where
  "demo_state =
     \<lparr>caches = [(G1, [(''https://a.io/'', demo_response ''https://a.io/'')]), (G2, [])],
      localforage = Some [('''', [''[.]png$''])],
      trace = [],
      randoms_used = 0\<rparr>"

definition fresh_state :: state where
  "fresh_state = \<lparr>caches = [], localforage = Some [], trace = [], randoms_used = 0\<rparr>"

definition second_window :: client where
  "second_window = \<lparr>client_url = ''https://a.io/'', client_controlled = True, client_kind = Window\<rparr>"

definition png_request :: request where
  "png_request = \<lparr>req_url = ''https://a.io/a.png'', req_mode = NoCors, req_search_extra = [],
                   req_cache = Default\<rparr>"

definition root_request :: request where
  "root_request = \<lparr>req_url = ''https://a.io/'', req_mode = Navigate, req_search_extra = [],
                    req_cache = Default\<rparr>"

definition broken_list_state :: state where
  "broken_list_state = demo_state\<lparr>localforage := Some [('''', [''['', ''[.]png$''])]\<rparr>"

text \<open>The same deployment with a manifest that lists the main page itself.\<close>

definition index_manifest :: manifest where
  "index_manifest = \<lparr>version = ''2'', fileList = [''index.html'', ''a.js''], lazyLoad = None\<rparr>"

definition index_host :: host where
  "index_host =
     demo_host\<lparr>network :=
       (\<lambda>r. if req_url r = ''https://a.io/offline.js''
            then Some ((demo_response (req_url r))\<lparr>json := Some index_manifest\<rparr>)
            else Some (demo_response (req_url r)))\<rparr>"

text \<open>A request for the root page with a fragment, and a state with one generation.\<close>

definition top_request :: request where
  "top_request = \<lparr>req_url = ''https://a.io/#top'', req_mode = NoCors, req_search_extra = [],
                   req_cache = Default\<rparr>"

definition single_state :: state where
  "single_state = demo_state\<lparr>caches := [(G2, [])]\<rparr>"

section \<open>Properties\<close>

subsection \<open>Auxiliary facts\<close>

lemma caches_foldl_delete:
  "caches (foldl (\<lambda>t c. caches_delete c t) s ds) = filter (\<lambda>c. fst c \<notin> set ds) (caches s)"
  by (induction ds arbitrary: s) (auto simp: caches_delete_def emit_def intro: filter_cong)

lemma keep_only_last:
  "distinct xs \<Longrightarrow> xs \<noteq> [] \<Longrightarrow> filter (\<lambda>x. x \<notin> set (butlast xs)) xs = [last xs]"
proof (induction xs rule: rev_induct)
  case Nil
  then show ?case by simp
next
  case (snoc x xs)
  then show ?case by (auto simp: filter_empty_conv)
qed

lemma first_name_hd: "names \<noteq> [] \<Longrightarrow> first_name names = Some (hd names)"
  by (cases names) (simp_all add: first_name_def)

lemma last_name_last: "names \<noteq> [] \<Longrightarrow> last_name names = Some (last names)"
  by (cases names) (simp_all add: last_name_def)

lemma available_after_deletes:
  "GetAvailableCacheNames h (foldl (\<lambda>t c. caches_delete c t) s ds)
     = filter (\<lambda>n. n \<notin> set ds) (GetAvailableCacheNames h s)"
  by (simp add: GetAvailableCacheNames_def caches_keys_def caches_foldl_delete filter_map
      comp_def conj_commute)

lemma available_emit: "GetAvailableCacheNames h (emit e s) = GetAvailableCacheNames h s"
  by (simp add: GetAvailableCacheNames_def caches_keys_def emit_def)

lemma map_of_filter_keep:
  "k \<notin> D \<Longrightarrow> map_of (filter (\<lambda>c. fst c \<notin> D) xs) k = map_of xs k"
  by (induction xs) auto

lemma deleted_foldl_delete:
  "deleted (trace (foldl (\<lambda>t c. caches_delete c t) s ds)) = deleted (trace s) @ ds"
  by (induction ds arbitrary: s) (auto simp: caches_delete_def emit_def deleted_def)

lemma cache_match_open:
  "cache_match name key (caches_open name s) = cache_match name key s"
  by (auto simp: cache_match_def caches_open_def emit_def caches_has_def caches_keys_def
      map_of_eq_None_iff[symmetric] split: option.splits)

lemma lazy_scan_takeWhile:
  "lazy_scan h url ps =
     (if matches_some_pattern h url (takeWhile (compiles h) ps) then Inr True
      else if takeWhile (compiles h) ps = ps then Inr False
      else Inl (RegExpSyntaxError (ps ! length (takeWhile (compiles h) ps))))"
proof (induction ps)
  case Nil
  show ?case by (simp add: matches_some_pattern_def)
next
  case (Cons p ps)
  show ?case
  proof (cases "RegExp h p")
    case None
    then have "\<not> compiles h p" by (simp add: compiles_def)
    then show ?thesis using None by (simp add: matches_some_pattern_def)
  next
    case (Some test)
    then have "compiles h p" by (simp add: compiles_def)
    then show ?thesis using Some Cons by (simp add: matches_some_pattern_def)
  qed
qed

lemma lazy_scan_match:
  "lazy_scan h url ps = Inr True \<Longrightarrow> \<exists>p \<in> set ps. \<exists>test. RegExp h p = Some test \<and> test url"
  by (induction ps) (auto split: option.splits if_splits)

text \<open>What a single fetch leaves alone.\<close>

lemma fetchWithBypass_frame:
  assumes "fetchWithBypass h req b s = (r, s')"
  shows "caches s' = caches s" and "localforage s' = localforage s"
    and "opened (trace s') = opened (trace s)" and "deleted (trace s') = deleted (trace s)"
  using assms
  by (auto simp: fetchWithBypass_def fetch_def emit_def Let_def opened_def deleted_def split: if_splits)

lemma fetch_all_frame:
  assumes "fetch_all h files b s = (rs, s')"
  shows "caches s' = caches s \<and> localforage s' = localforage s
       \<and> opened (trace s') = opened (trace s) \<and> deleted (trace s') = deleted (trace s)
       \<and> length rs = length files"
  using assms
proof (induction files arbitrary: s rs s')
  case Nil
  then show ?case by simp
next
  case (Cons u us)
  obtain r s1 where f: "fetchWithBypass h (Inl u) b s = (r, s1)" by (cases "fetchWithBypass h (Inl u) b s")
  obtain rs1 s2 where g: "fetch_all h us b s1 = (rs1, s2)" by (cases "fetch_all h us b s1")
  from Cons.prems f g have e: "rs = r # rs1" "s' = s2" by auto
  from Cons.IH[OF g] fetchWithBypass_frame[OF f] e show ?case by simp
qed

lemma log_not_ok_frame:
  "caches (log_not_ok rs s) = caches s \<and> localforage (log_not_ok rs s) = localforage s
   \<and> opened (trace (log_not_ok rs s)) = opened (trace s)
   \<and> deleted (trace (log_not_ok rs s)) = deleted (trace s)
   \<and> fetches (trace (log_not_ok rs s)) = fetches (trace s)"
  by (induction rs arbitrary: s) (auto simp: emit_def opened_def deleted_def fetches_def)

lemma those_Some_all:
  "those rs = Some xs \<Longrightarrow> rs = map Some xs"
  by (induction rs arbitrary: xs) (auto split: option.splits)

lemma filter_others_map:
  "filter (\<lambda>c. fst c \<noteq> name) (map (\<lambda>c. if fst c = name then (fst c, f (snd c)) else c) cs)
     = filter (\<lambda>c. fst c \<noteq> name) cs"
  by (induction cs) auto

lemma cache_put_frame:
  assumes "cache_put h name key r s = (e, s')"
  shows "map fst (caches s') = map fst (caches s)"
    and "filter (\<lambda>c. fst c \<noteq> name) (caches s') = filter (\<lambda>c. fst c \<noteq> name) (caches s)"
    and "localforage s' = localforage s"
    and "opened (trace s') = opened (trace s)" and "deleted (trace s') = deleted (trace s)"
    and "fetches (trace s') = fetches (trace s)"
    and "e = (if put_rejects h name key then Some (PutRejected key) else None)"
  using assms
  by (auto simp: cache_put_def emit_def opened_def deleted_def fetches_def filter_others_map
      split: if_splits)

lemma put_all_frame:
  assumes "put_all h name ents s = (e, s')"
  shows "map fst (caches s') = map fst (caches s)
       \<and> filter (\<lambda>c. fst c \<noteq> name) (caches s') = filter (\<lambda>c. fst c \<noteq> name) (caches s)
       \<and> localforage s' = localforage s
       \<and> opened (trace s') = opened (trace s) \<and> deleted (trace s') = deleted (trace s)
       \<and> fetches (trace s') = fetches (trace s)
       \<and> ((e = None) = (\<forall>u \<in> fst ` set ents. \<not> put_rejects h name (resolve h u)))
       \<and> (e \<noteq> None \<longrightarrow> (\<exists>key. e = Some (PutRejected key) \<and> put_rejects h name key))"
  using assms
proof (induction ents arbitrary: s e s')
  case Nil
  then show ?case by simp
next
  case (Cons x ents)
  obtain u r where x: "x = (u, r)" by (cases x)
  obtain e1 s1 where p: "cache_put h name (resolve h u) r s = (e1, s1)"
    by (cases "cache_put h name (resolve h u) r s")
  obtain e2 s2 where q: "put_all h name ents s1 = (e2, s2)" by (cases "put_all h name ents s1")
  from Cons.prems x p q have r: "s' = s2" "e = (case e1 of Some err \<Rightarrow> Some err | None \<Rightarrow> e2)"
    by auto
  note a = cache_put_frame[OF p] and b = Cons.IH[OF q]
  show ?case
  proof (cases "put_rejects h name (resolve h u)")
    case True
    with a(7) r have "e = Some (PutRejected (resolve h u))" by simp
    with a b r True x show ?thesis by simp
  next
    case False
    with a(7) r have "e = e2" by simp
    with a b r False x show ?thesis by auto
  qed
qed

lemma caches_open_frame:
  "localforage (caches_open name s) = localforage s"
  "opened (trace (caches_open name s)) = opened (trace s) @ [name]"
  "deleted (trace (caches_open name s)) = deleted (trace s)"
  "fetches (trace (caches_open name s)) = fetches (trace s)"
  "filter (\<lambda>c. fst c \<noteq> name) (caches (caches_open name s)) = filter (\<lambda>c. fst c \<noteq> name) (caches s)"
  "caches_has name (caches_open name s)"
  by (auto simp: caches_open_def emit_def opened_def deleted_def fetches_def caches_has_def caches_keys_def)

lemma caches_delete_frame:
  "localforage (caches_delete name s) = localforage s"
  "opened (trace (caches_delete name s)) = opened (trace s)"
  "deleted (trace (caches_delete name s)) = deleted (trace s) @ [name]"
  "fetches (trace (caches_delete name s)) = fetches (trace s)"
  "caches (caches_delete name s) = filter (\<lambda>c. fst c \<noteq> name) (caches s)"
  "\<not> caches_has name (caches_delete name s)"
  by (auto simp: caches_delete_def emit_def opened_def deleted_def fetches_def caches_has_def caches_keys_def)

lemma emit_console_frame:
  "caches (emit (ConsoleError m) s) = caches s"
  "localforage (emit (ConsoleError m) s) = localforage s"
  "opened (trace (emit (ConsoleError m) s)) = opened (trace s)"
  "deleted (trace (emit (ConsoleError m) s)) = deleted (trace s)"
  "fetches (trace (emit (ConsoleError m) s)) = fetches (trace s)"
  by (auto simp: emit_def opened_def deleted_def fetches_def)

lemma emit_frame:
  "caches (emit e s) = caches s"
  "localforage (emit e s) = localforage s"
  "trace (emit e s) = trace s @ [e]"
  by (simp_all add: emit_def)

lemma post_frame:
  "caches (PostBroadcastMessage h m s) = caches s"
  "localforage (PostBroadcastMessage h m s) = localforage s"
  "fetches (trace (PostBroadcastMessage h m s)) = fetches (trace s)"
  "trace (PostBroadcastMessage h m s) = trace s @ (if haveBroadcastChannel h then [PostMessage m] else [])"
  by (simp_all add: PostBroadcastMessage_def emit_def fetches_def)

lemma manifest_fetch:
  "fetchWithBypass h (Inl OFFLINE_DATA_FILE) True s
     = (network h (manifest_request h s),
        emit (Fetch (manifest_request h s)) (s\<lparr>randoms_used := Suc (randoms_used s)\<rparr>))"
  by (simp add: fetchWithBypass_def fetch_def Request_def manifest_request_def)

lemma available_randoms:
  "GetAvailableCacheNames h (s\<lparr>randoms_used := n\<rparr>) = GetAvailableCacheNames h s"
  by (simp add: GetAvailableCacheNames_def caches_keys_def)



lemma map_of_named:
  "map_of (map (\<lambda>c. if fst c = name then (fst c, f (snd c)) else c) cs) n
     = (if n = name then map_option f (map_of cs n) else map_of cs n)"
  by (induction cs) auto








lemma fetchWithBypass_request:
  assumes "fetchWithBypass h (Inl u) b s = (r, s')"
  shows "\<exists>req. fetches (trace s') = fetches (trace s) @ [req] \<and> req_url req = resolve h u
           \<and> (if b then bypassing req else ordinary req) \<and> r = network h req"
  using assms
  by (auto simp: fetchWithBypass_def fetch_def emit_def Request_def fetches_def bypassing_def
      ordinary_def Let_def split: if_splits)

lemma fetch_all_requests:
  assumes "fetch_all h files b s = (rs, s')"
  shows "\<exists>reqs. fetches (trace s') = fetches (trace s) @ reqs
           \<and> map req_url reqs = map (resolve h) files
           \<and> (\<forall>r \<in> set reqs. if b then bypassing r else ordinary r)
           \<and> rs = map (network h) reqs"
  using assms
proof (induction files arbitrary: s rs s')
  case Nil
  then show ?case by simp
next
  case (Cons u us)
  obtain r s1 where f: "fetchWithBypass h (Inl u) b s = (r, s1)"
    by (cases "fetchWithBypass h (Inl u) b s")
  obtain rs1 s2 where g: "fetch_all h us b s1 = (rs1, s2)" by (cases "fetch_all h us b s1")
  from Cons.prems f g have e: "rs = r # rs1" "s' = s2" by auto
  from fetchWithBypass_request[OF f] obtain req where
    q: "fetches (trace s1) = fetches (trace s) @ [req]" "req_url req = resolve h u"
       "if b then bypassing req else ordinary req" "r = network h req"
    by blast
  from Cons.IH[OF g] obtain reqs where
    qs: "fetches (trace s2) = fetches (trace s1) @ reqs" "map req_url reqs = map (resolve h) us"
        "\<forall>r \<in> set reqs. if b then bypassing r else ordinary r" "rs1 = map (network h) reqs"
    by blast
  have "fetches (trace s') = fetches (trace s) @ (req # reqs)" using q(1) qs(1) e by simp
  moreover have "map req_url (req # reqs) = map (resolve h) (u # us)" using q(2) qs(2) by simp
  moreover have "\<forall>r \<in> set (req # reqs). if b then bypassing r else ordinary r"
    using q(3) qs(3) by simp
  moreover have "rs = map (network h) (req # reqs)" using q(4) qs(4) e by simp
  ultimately show ?case by blast
qed

lemma CreateCacheFromFileList_fetches:
  assumes "CreateCacheFromFileList h name files b s = (e, s')"
    and "fetch_all h files b s = (rs, s1)"
  shows "fetches (trace s') = fetches (trace s1)"
proof (cases "those rs")
  case None
  with assms show ?thesis by (simp add: CreateCacheFromFileList_def)
next
  case (Some responses)
  note lg = log_not_ok_frame[of responses s1]
  show ?thesis
  proof (cases "list_all ok responses")
    case False
    with assms Some lg show ?thesis by (simp add: CreateCacheFromFileList_def)
  next
    case True
    obtain e2 s3 where p: "put_all h name (zip files responses) (caches_open name (log_not_ok responses s1)) = (e2, s3)"
      by (cases "put_all h name (zip files responses) (caches_open name (log_not_ok responses s1))")
    note pa = put_all_frame[OF p]
    show ?thesis
    proof (cases e2)
      case None
      with assms Some True p have "s' = s3" by (simp add: CreateCacheFromFileList_def)
      with pa lg show ?thesis by (simp add: caches_open_frame)
    next
      case (Some err)
      with assms \<open>those rs = Some responses\<close> True p
      have "s' = caches_delete name (emit (ConsoleError (ErrorWritingCache err)) s3)"
        by (simp add: CreateCacheFromFileList_def)
      with pa lg show ?thesis
        by (simp add: caches_open_frame caches_delete_frame emit_console_frame)
    qed
  qed
qed

lemma CreateCacheFromFileList_requests:
  assumes "CreateCacheFromFileList h name files b s = (e, s')"
  shows "\<exists>reqs. fetches (trace s') = fetches (trace s) @ reqs
           \<and> map req_url reqs = map (resolve h) files
           \<and> (\<forall>r \<in> set reqs. if b then bypassing r else ordinary r)"
proof -
  obtain rs s1 where f: "fetch_all h files b s = (rs, s1)" by (cases "fetch_all h files b s")
  from fetch_all_requests[OF f] CreateCacheFromFileList_fetches[OF assms f]
  show ?thesis by auto
qed

lemma fetches_emit_other:
  "fetches (trace (emit (ConsoleLog m) s)) = fetches (trace s)"
  "fetches (trace (emit (ConsoleWarn m) s)) = fetches (trace s)"
  "fetches (trace (emit (ConsoleError m) s)) = fetches (trace s)"
  "fetches (trace (emit (Fetch r) s)) = fetches (trace s) @ [r]"
  by (simp_all add: emit_def fetches_def)

lemma bypassing_manifest_request: "bypassing (manifest_request h s)"
  by (simp add: bypassing_def manifest_request_def)

lemma announce_download_frame:
  "caches (announce_download h isFirst data files s) = caches s"
  "fetches (trace (announce_download h isFirst data files s)) = fetches (trace s)"
  "opened (trace (announce_download h isFirst data files s)) = opened (trace s)"
  "randoms_used (announce_download h isFirst data files s) = randoms_used s"
  by (simp_all add: announce_download_def Let_def Broadcast_def BroadcastDownloadingUpdate_def
      PostBroadcastMessage_def emit_def fetches_def opened_def WriteLazyLoadListToStorage_def
      split: option.splits)

lemma announce_ready_frame:
  "caches (announce_ready h data s) = caches s"
  "fetches (trace (announce_ready h data s)) = fetches (trace s)"
  "localforage (announce_ready h data s) = localforage s"
  by (simp_all add: announce_ready_def Broadcast_def BroadcastUpdateReady_def
      PostBroadcastMessage_def emit_def fetches_def)

lemma UpdateCheck_try_fetches:
  "\<exists>rest. fetches (trace (snd (UpdateCheck_try h isFirst s)))
             = fetches (trace s) @ manifest_request h s # rest
         \<and> (\<forall>r \<in> set rest. if isFirst then ordinary r else bypassing r)
         \<and> (\<forall>resp data. network h (manifest_request h s) = Some resp \<and> ok resp
               \<and> json resp = Some data
               \<and> \<not> caches_has (GetCacheVersionName h (version data)) s
              \<longrightarrow> map req_url rest
                    = map (resolve h) (add_implicit_pages (GetMainPageUrl h) (fileList data)))"
proof -
  define s1 where "s1 = emit (Fetch (manifest_request h s)) (s\<lparr>randoms_used := Suc (randoms_used s)\<rparr>)"
  have f1: "fetches (trace s1) = fetches (trace s) @ [manifest_request h s]"
    by (simp add: s1_def emit_def fetches_def)
  have has1: "\<And>n. caches_has n s1 = caches_has n s"
    by (simp add: s1_def caches_has_def caches_keys_def emit_def)
  note mf = manifest_fetch[of h s, folded s1_def]
  show ?thesis
  proof (cases "network h (manifest_request h s)")
    case None
    then have "snd (UpdateCheck_try h isFirst s) = s1" by (simp add: UpdateCheck_try_def mf)
    with f1 None show ?thesis by simp
  next
    case (Some resp)
    show ?thesis
    proof (cases "ok resp \<and> json resp \<noteq> None")
      case False
      then have "snd (UpdateCheck_try h isFirst s) = s1"
        using Some by (auto simp: UpdateCheck_try_def mf split: option.splits)
      with f1 Some False show ?thesis by auto
    next
      case True
      then obtain data where d: "ok resp" "json resp = Some data" by auto
      define name where "name = GetCacheVersionName h (version data)"
      show ?thesis
      proof (cases "caches_has name s")
        case ex: True
        then have "fetches (trace (snd (UpdateCheck_try h isFirst s))) = fetches (trace s1)"
          using Some d has1[of name]
          by (simp add: UpdateCheck_try_def mf name_def[symmetric] Let_def Broadcast_def
              post_frame(3) fetches_emit_other)
        with f1 Some d ex show ?thesis by (simp add: name_def)
      next
        case nex: False
        define files where "files = add_implicit_pages (GetMainPageUrl h) (fileList data)"
        define s4 where "s4 = announce_download h isFirst data files s1"
        have f4: "fetches (trace s4) = fetches (trace s1)"
          by (simp add: s4_def announce_download_frame)
        obtain e s5 where c: "CreateCacheFromFileList h name files (\<not> isFirst) s4 = (e, s5)"
          by (cases "CreateCacheFromFileList h name files (\<not> isFirst) s4")
        from CreateCacheFromFileList_requests[OF c] obtain reqs where
          q: "fetches (trace s5) = fetches (trace s4) @ reqs"
             "map req_url reqs = map (resolve h) files"
             "\<forall>r \<in> set reqs. if \<not> isFirst then bypassing r else ordinary r"
          by blast
        have "fetches (trace (snd (UpdateCheck_try h isFirst s))) = fetches (trace s5)"
          using Some d nex has1[of name] c
          by (cases e)
             (simp_all add: UpdateCheck_try_def mf name_def[symmetric] Let_def
                files_def[symmetric] s4_def[symmetric] announce_ready_frame)
        with q f4 f1 have "fetches (trace (snd (UpdateCheck_try h isFirst s)))
             = fetches (trace s) @ manifest_request h s # reqs" by simp
        moreover have "\<forall>r \<in> set reqs. if isFirst then ordinary r else bypassing r"
          using q(3) by auto
        ultimately show ?thesis using q(2) Some d by (auto simp: files_def)
      qed
    qed
  qed
qed

lemma UpdateCheck_fetches:
  "fetches (trace (UpdateCheck h isFirst s)) = fetches (trace (snd (UpdateCheck_try h isFirst s)))"
  by (cases "UpdateCheck_try h isFirst s")
     (auto simp: UpdateCheck_def fetches_emit_other split: option.splits)

lemma those_map_ok:
  "\<forall>r \<in> set reqs. \<exists>x. f r = Some x \<and> P x
   \<Longrightarrow> \<exists>xs. those (map f reqs) = Some xs \<and> list_all P xs \<and> length xs = length reqs"
  by (induction reqs) auto

lemma cache_urls_open:
  "cache_urls n (caches_open name s) = cache_urls n s"
  by (auto simp: cache_urls_def caches_open_def emit_def caches_has_def caches_keys_def
      map_of_eq_None_iff[symmetric] split: option.splits if_splits)

lemma cache_urls_caches: "caches s' = caches s \<Longrightarrow> cache_urls n s' = cache_urls n s"
  by (simp add: cache_urls_def)

lemma caches_has_caches: "caches s' = caches s \<Longrightarrow> caches_has n s' = caches_has n s"
  by (simp add: caches_has_def caches_keys_def)

lemma urls_put_entry:
  "without_fragment ` fst ` set (put_entry key r entries)
     = insert (without_fragment key) (without_fragment ` fst ` set entries)"
  by (auto simp: put_entry_def same_resource_def image_iff)

lemma find_matching:
  "(find (\<lambda>e. same_resource (fst e) k) entries = None)
     = (without_fragment k \<notin> without_fragment ` fst ` set entries)"
  by (induction entries) (auto simp: same_resource_def)

lemma cache_urls_match:
  "(cache_match n k s \<noteq> None) = (without_fragment k \<in> cache_urls n s)"
proof (cases "map_of (caches s) n")
  case None
  then show ?thesis by (simp add: cache_match_def cache_urls_def)
next
  case (Some entries)
  then show ?thesis using find_matching[of k entries]
    by (simp add: cache_match_def cache_urls_def)
qed

lemma cache_urls_put:
  assumes "\<not> put_rejects h name key" and "caches_has name s"
  shows "cache_urls name (snd (cache_put h name key r s))
           = insert (without_fragment key) (cache_urls name s)"
    and "caches_has name (snd (cache_put h name key r s))"
proof -
  from assms(2) have "map_of (caches s) name \<noteq> None"
    by (simp add: map_of_eq_None_iff caches_has_def caches_keys_def)
  then obtain entries where e: "map_of (caches s) name = Some entries" by blast
  show "cache_urls name (snd (cache_put h name key r s))
          = insert (without_fragment key) (cache_urls name s)"
    using assms(1) e
    by (simp add: cache_put_def cache_urls_def emit_def map_of_named urls_put_entry)
  show "caches_has name (snd (cache_put h name key r s))"
    using assms by (simp add: cache_put_def caches_has_def caches_keys_def emit_def comp_def)
       (force)
qed

lemma put_all_urls:
  assumes "\<forall>u \<in> fst ` set ents. \<not> put_rejects h name (resolve h u)" and "caches_has name s"
  shows "fst (put_all h name ents s) = None
       \<and> cache_urls name (snd (put_all h name ents s))
           = cache_urls name s \<union> without_fragment ` resolve h ` fst ` set ents
       \<and> caches_has name (snd (put_all h name ents s))"
  using assms
proof (induction ents arbitrary: s)
  case Nil
  then show ?case by simp
next
  case (Cons x ents)
  obtain u r where x: "x = (u, r)" by (cases x)
  from Cons.prems x have nr: "\<not> put_rejects h name (resolve h u)" by simp
  define s1 where "s1 = snd (cache_put h name (resolve h u) r s)"
  have p: "cache_put h name (resolve h u) r s = (None, s1)"
    using nr by (simp add: s1_def cache_put_def)
  note a = cache_urls_put[OF nr Cons.prems(2), of r, folded s1_def]
  from Cons.prems(1) have "\<forall>u \<in> fst ` set ents. \<not> put_rejects h name (resolve h u)" by simp
  from Cons.IH[OF this a(2)] a(1) p x show ?case
    by (auto simp: split_beta)
qed

lemma fetch_all_ok:
  assumes "\<forall>r. req_url r \<in> resolve h ` set files \<longrightarrow> (\<exists>x. network h r = Some x \<and> ok x)"
    and "fetch_all h files b s = (rs, s1)"
  shows "\<exists>responses. those rs = Some responses \<and> list_all ok responses
           \<and> length responses = length files"
proof -
  from fetch_all_requests[OF assms(2)] obtain reqs where
    q: "map req_url reqs = map (resolve h) files" "rs = map (network h) reqs" by blast
  have "\<forall>r \<in> set reqs. req_url r \<in> resolve h ` set files"
  proof
    fix r assume "r \<in> set reqs"
    then have "req_url r \<in> set (map req_url reqs)" by simp
    with q(1) show "req_url r \<in> resolve h ` set files" by simp
  qed
  with assms(1) have "\<forall>r \<in> set reqs. \<exists>x. network h r = Some x \<and> ok x" by blast
  from those_map_ok[OF this] q show ?thesis
    by (metis length_map)
qed

lemma populate_succeeds:
  assumes "\<forall>r. req_url r \<in> resolve h ` set files \<longrightarrow> (\<exists>x. network h r = Some x \<and> ok x)"
    and "\<forall>u \<in> set files. \<not> put_rejects h name (resolve h u)"
  shows "\<exists>s'. CreateCacheFromFileList h name files b s = (None, s')
           \<and> cache_urls name s' = cache_urls name s \<union> without_fragment ` resolve h ` set files
           \<and> caches_has name s'"
proof -
  obtain rs s1 where f: "fetch_all h files b s = (rs, s1)" by (cases "fetch_all h files b s")
  from fetch_all_ok[OF assms(1) f] obtain responses where
    r: "those rs = Some responses" "list_all ok responses" "length responses = length files"
    by blast
  define s2 where "s2 = caches_open name (log_not_ok responses s1)"
  have z: "fst ` set (zip files responses) = set files"
    using r(3) by (metis map_fst_zip set_map)
  have h2: "caches_has name s2" by (simp add: s2_def caches_open_frame)
  have "caches (log_not_ok responses s1) = caches s"
    using fetch_all_frame[OF f] log_not_ok_frame[of responses s1] by simp
  then have u2: "cache_urls name s2 = cache_urls name s"
    unfolding s2_def cache_urls_open by (rule cache_urls_caches)
  from put_all_urls[of "zip files responses" h name s2] assms(2) z h2
  have pa: "fst (put_all h name (zip files responses) s2) = None"
    "cache_urls name (snd (put_all h name (zip files responses) s2))
           = cache_urls name s2 \<union> without_fragment ` resolve h ` set files"
    "caches_has name (snd (put_all h name (zip files responses) s2))"
    by simp_all
  have "CreateCacheFromFileList h name files b s = (None, snd (put_all h name (zip files responses) s2))"
    using f r(1,2) pa(1)
    by (cases "put_all h name (zip files responses) s2")
       (simp add: CreateCacheFromFileList_def s2_def[symmetric])
  with pa u2 show ?thesis by simp
qed

lemmas demo_defs =
  demo_host_def demo_state_def demo_network_def demo_RegExp_def demo_resolve_def
  demo_response_def demo_manifest_def G1_def G2_def fresh_state_def second_window_def
  png_request_def root_request_def broken_list_state_def index_manifest_def
  index_host_def top_request_def single_state_def

lemmas prim_defs =
  emit_def startsWith_def caches_keys_def caches_has_def caches_open_def caches_delete_def
  cache_match_def cache_put_def put_entry_def without_fragment_def same_resource_def
  clients_matchAll_def fetch_def Request_def
  PostBroadcastMessage_def Broadcast_def BroadcastDownloadingUpdate_def BroadcastUpdateReady_def
  OFFLINE_DATA_FILE_def CACHE_NAME_PREFIX_def LAZYLOAD_KEYNAME_def
  GetCacheBaseName_def GetCacheVersionName_def GetAvailableCacheNames_def IsUpdatePending_def
  first_name_def last_name_def

subsection \<open>Routing to the oldest generation\<close>

text \<open>
  C3. Whenever at least one generation exists and either exactly one exists, or the
  request is not a navigation, or more than one window is connected,
  \<open>GetCacheNameToUse\<close> returns the first name of the list it is given (the oldest
  generation, the list being in creation order) and leaves the state as it was: nothing
  is deleted.
\<close>

theorem oldest_generation_selected:
  assumes "availableCacheNames \<noteq> []"
    and "length availableCacheNames = 1 \<or> \<not> doUpdateCheck
           \<or> length (clients_matchAll h False Window) > 1"
  shows "GetCacheNameToUse h availableCacheNames doUpdateCheck s
           = (Some (hd availableCacheNames), s)"
  using assms by (auto simp: GetCacheNameToUse_def first_name_hd)

theorem oldest_generation_selected_witness:
  "GetAvailableCacheNames demo_host demo_state = [G1, G2]
   \<and> length (clients_matchAll (demo_host\<lparr>clients := second_window # clients demo_host\<rparr>) False Window) > 1
   \<and> GetCacheNameToUse (demo_host\<lparr>clients := second_window # clients demo_host\<rparr>) [G1, G2] True demo_state
       = (Some G1, demo_state)"
proof -
  have c: "length (clients_matchAll (demo_host\<lparr>clients := second_window # clients demo_host\<rparr>) False Window) > 1"
    by (simp add: demo_defs prim_defs)
  have n: "[G1, G2] \<noteq> []" by simp
  have g: "GetAvailableCacheNames demo_host demo_state = [G1, G2]"
    by (simp add: demo_defs prim_defs)
  from oldest_generation_selected [OF n, of True "demo_host\<lparr>clients := second_window # clients demo_host\<rparr>" demo_state] c g
  show ?thesis by simp
qed

subsection \<open>Upgrading when a single window navigates\<close>

text \<open>
  C2. Cache Storage holds each name once. When the worker's generations number two or
  more, the request is a navigation and at most one window is connected,
  \<open>GetCacheNameToUse\<close> returns the newest generation and deletes every other one:
  afterwards the generations listed are exactly the newest, each superseded name has been
  passed to \<open>caches.delete\<close> and is gone, the newest generation holds what it held, any
  later request (navigation or not) is routed to the newest with nothing changed, and
  \<open>HandleFetch\<close> answers the navigation from the newest generation's entry.
\<close>

theorem single_instance_upgrade:
  assumes "distinct (caches_keys s)"
    and "names = GetAvailableCacheNames h s"
    and "2 \<le> length names"
    and "length (clients_matchAll h False Window) \<le> 1"
  shows "\<exists>s'. GetCacheNameToUse h names True s = (Some (last names), s')
           \<and> GetAvailableCacheNames h s' = [last names]
           \<and> deleted (trace s') = deleted (trace s) @ butlast names
           \<and> (\<forall>n \<in> set (butlast names). \<not> caches_has n s')
           \<and> (\<forall>key. cache_match (last names) key s' = cache_match (last names) key s)
           \<and> (\<forall>nav. GetCacheNameToUse h (GetAvailableCacheNames h s') nav s' = (Some (last names), s'))
           \<and> (\<forall>request r. cache_match (last names) (req_url request) s = Some r
                  \<longrightarrow> fst (HandleFetch h request True s) = Inr r)"
proof -
  define s' where
    "s' = foldl (\<lambda>t c. caches_delete c t) (emit (ConsoleLog LogUpdatingToNew) s) (butlast names)"
  from assms(3) have ne: "names \<noteq> []" by auto
  have d: "distinct names" using assms(1,2) by (simp add: GetAvailableCacheNames_def)
  have sel: "GetCacheNameToUse h names True s = (Some (last names), s')"
    using assms(3,4) ne by (simp add: GetCacheNameToUse_def last_name_last Let_def s'_def)
  have av: "GetAvailableCacheNames h s' = [last names]"
    using keep_only_last[OF d ne] assms(2)
    by (simp add: available_after_deletes available_emit s'_def)
  have del: "deleted (trace s') = deleted (trace s) @ butlast names"
    by (simp add: s'_def deleted_foldl_delete) (simp add: emit_def deleted_def)
  have gone: "\<forall>n \<in> set (butlast names). \<not> caches_has n s'"
    by (auto simp: s'_def caches_has_def caches_keys_def caches_foldl_delete)
  have lastnot: "last names \<notin> set (butlast names)"
    using d ne by (metis append_butlast_last_id distinct_append disjoint_iff list.set_intros(1))
  have keep: "\<forall>key. cache_match (last names) key s' = cache_match (last names) key s"
    using lastnot
    by (simp add: s'_def cache_match_def caches_foldl_delete map_of_filter_keep)
       (simp add: emit_def)
  have later: "\<forall>nav. GetCacheNameToUse h (GetAvailableCacheNames h s') nav s' = (Some (last names), s')"
    by (simp add: av GetCacheNameToUse_def first_name_def)
  have served: "\<forall>request r. cache_match (last names) (req_url request) s = Some r
                  \<longrightarrow> fst (HandleFetch h request True s) = Inr r"
    using ne sel keep assms(2) by (simp add: HandleFetch_def Let_def cache_match_open)
  from sel av del gone keep later served show ?thesis by blast
qed

theorem single_instance_upgrade_witness:
  "distinct (caches_keys demo_state)
   \<and> GetAvailableCacheNames demo_host demo_state = [G1, G2]
   \<and> length (clients_matchAll demo_host False Window) \<le> 1
   \<and> (\<exists>s'. GetCacheNameToUse demo_host [G1, G2] True demo_state = (Some G2, s')
          \<and> GetAvailableCacheNames demo_host s' = [G2]
          \<and> deleted (trace s') = [G1]
          \<and> \<not> caches_has G1 s')"
proof -
  have a: "distinct (caches_keys demo_state)" by (simp add: demo_defs prim_defs)
  have b: "GetAvailableCacheNames demo_host demo_state = [G1, G2]"
    by (simp add: demo_defs prim_defs)
  have c: "2 \<le> length [G1, G2]" by simp
  have d: "length (clients_matchAll demo_host False Window) \<le> 1"
    by (simp add: demo_defs prim_defs)
  have e: "deleted (trace demo_state) = []" by (simp add: demo_state_def deleted_def)
  from single_instance_upgrade [OF a b [symmetric] c d] obtain s' where
    "GetCacheNameToUse demo_host [G1, G2] True demo_state = (Some (last [G1, G2]), s')"
    "GetAvailableCacheNames demo_host s' = [last [G1, G2]]"
    "deleted (trace s') = deleted (trace demo_state) @ butlast [G1, G2]"
    "\<forall>n \<in> set (butlast [G1, G2]). \<not> caches_has n s'"
    by blast
  with a b d e show ?thesis by auto
qed

subsection \<open>Matching against the lazy-load list\<close>

text \<open>
  C5, as the code has it. The patterns are tested in list order against the full URL
  until one matches. The \<open>try\<close> encloses the whole loop, so a pattern that does not
  compile ends the scan: with \<open>tried\<close> the patterns in front of the first malformed
  one, the answer is true when one of \<open>tried\<close> matches (nothing is logged then);
  otherwise it is false, and when a malformed pattern was reached its error is logged once
  and the patterns behind it are not tested. Without a list the answer is false. An
  answer of true always comes from a pattern that compiled and matched: a malformed
  pattern is never treated as a match.
\<close>

theorem lazy_list_scanned_up_to_first_malformed:
  "IsUrlInLazyLoadList h url None s = (False, s)
   \<and> IsUrlInLazyLoadList h url (Some patterns) s =
       (let tried = takeWhile (compiles h) patterns
        in if matches_some_pattern h url tried then (True, s)
           else if tried = patterns then (False, s)
           else (False, emit (ConsoleError (ErrorMatchingLazyLoad
                                (RegExpSyntaxError (patterns ! length tried)))) s))
   \<and> (fst (IsUrlInLazyLoadList h url (Some patterns) s)
         \<longrightarrow> (\<exists>p \<in> set patterns. \<exists>test. RegExp h p = Some test \<and> test url))"
proof (intro conjI)
  show "IsUrlInLazyLoadList h url None s = (False, s)"
    by (simp add: IsUrlInLazyLoadList_def)
  show "IsUrlInLazyLoadList h url (Some patterns) s =
     (let tried = takeWhile (compiles h) patterns
      in if matches_some_pattern h url tried then (True, s)
         else if tried = patterns then (False, s)
         else (False, emit (ConsoleError (ErrorMatchingLazyLoad
                              (RegExpSyntaxError (patterns ! length tried)))) s))"
    unfolding IsUrlInLazyLoadList_def Let_def by (subst lazy_scan_takeWhile) simp
  show "fst (IsUrlInLazyLoadList h url (Some patterns) s)
     \<longrightarrow> (\<exists>p \<in> set patterns. \<exists>test. RegExp h p = Some test \<and> test url)"
    using lazy_scan_match [of h url patterns]
    by (auto simp: IsUrlInLazyLoadList_def split: sum.splits)
qed

theorem lazy_list_scanned_up_to_first_malformed_witness:
  "IsUrlInLazyLoadList demo_host ''https://a.io/a.png'' (Some [''[.]png$'', ''['']) demo_state
     = (True, demo_state)
   \<and> IsUrlInLazyLoadList demo_host ''https://a.io/a.png'' (Some [''['', ''[.]png$'']) demo_state
     = (False, emit (ConsoleError (ErrorMatchingLazyLoad (RegExpSyntaxError ''[''))) demo_state)"
  using lazy_list_scanned_up_to_first_malformed
          [of demo_host "''https://a.io/a.png''" demo_state "[''[.]png$'', ''['']"]
        lazy_list_scanned_up_to_first_malformed
          [of demo_host "''https://a.io/a.png''" demo_state "[''['', ''[.]png$'']"]
  by (simp add: compiles_def matches_some_pattern_def demo_host_def demo_RegExp_def)

text \<open>
  C5 as the specification states it fails: behind a malformed pattern the remaining
  patterns are not tested. With the list \<open>[\<close>, \<open>[.]png$\<close> the URL
  \<open>https://a.io/a.png\<close> matches the second pattern, and the code answers false.
\<close>

theorem patterns_behind_malformed_not_tested:
  "matches_some_pattern demo_host ''https://a.io/a.png'' [''['', ''[.]png$'']
   \<and> \<not> fst (IsUrlInLazyLoadList demo_host ''https://a.io/a.png''
                (Some [''['', ''[.]png$'']) demo_state)"
  by (simp add: matches_some_pattern_def IsUrlInLazyLoadList_def demo_host_def demo_RegExp_def)

subsection \<open>Populating a generation\<close>

text \<open>
  C1. When one of the fetches that \<open>CreateCacheFromFileList\<close> issues for its file list
  comes back with a response that is not \<open>ok\<close> (or rejects), the function throws
  before \<open>caches.open\<close>: no cache is opened, Cache Storage and the key/value store are
  what they were, so none of the responses that succeeded is kept, and a generation name
  that did not exist before does not exist afterwards.
\<close>

theorem populate_aborts_on_failed_fetch:
  assumes "\<exists>r \<in> set (fst (fetch_all h files bypassCache s)).
             r = None \<or> (\<exists>resp. r = Some resp \<and> \<not> ok resp)"
  shows "\<exists>err s'. CreateCacheFromFileList h cacheName files bypassCache s = (Some err, s')
           \<and> caches s' = caches s
           \<and> localforage s' = localforage s
           \<and> opened (trace s') = opened (trace s)
           \<and> (\<not> caches_has cacheName s \<longrightarrow> \<not> caches_has cacheName s')"
proof -
  obtain results s1 where f: "fetch_all h files bypassCache s = (results, s1)"
    by (cases "fetch_all h files bypassCache s")
  note fr = fetch_all_frame[OF f]
  show ?thesis
  proof (cases "those results")
    case None
    then have "CreateCacheFromFileList h cacheName files bypassCache s = (Some NetworkError, s1)"
      using f by (simp add: CreateCacheFromFileList_def)
    with fr show ?thesis by (simp add: caches_has_def caches_keys_def)
  next
    case (Some responses)
    then have rs: "results = map Some responses" by (rule those_Some_all)
    with assms f have "\<not> list_all ok responses" by (auto simp: list_all_iff)
    then have "CreateCacheFromFileList h cacheName files bypassCache s
                 = (Some NotAllFetched, log_not_ok responses s1)"
      using f Some by (simp add: CreateCacheFromFileList_def)
    with fr log_not_ok_frame[of responses s1] show ?thesis
      by (simp add: caches_has_def caches_keys_def)
  qed
qed

theorem populate_aborts_on_failed_fetch_witness:
  "(\<exists>r \<in> set (fst (fetch_all demo_host [''a.js'', ''gone.js''] False fresh_state)).
      r = None \<or> (\<exists>resp. r = Some resp \<and> \<not> ok resp))
   \<and> (\<exists>err s'. CreateCacheFromFileList demo_host G2 [''a.js'', ''gone.js''] False fresh_state
                   = (Some err, s')
          \<and> caches s' = [] \<and> opened (trace s') = [] \<and> \<not> caches_has G2 s')"
proof -
  have a: "\<exists>r \<in> set (fst (fetch_all demo_host [''a.js'', ''gone.js''] False fresh_state)).
             r = None \<or> (\<exists>resp. r = Some resp \<and> \<not> ok resp)"
    by (simp add: fetchWithBypass_def demo_defs prim_defs)
  have b: "\<not> caches_has G2 fresh_state" "caches fresh_state = []" "opened (trace fresh_state) = []"
    by (simp_all add: fresh_state_def caches_has_def caches_keys_def opened_def)
  from populate_aborts_on_failed_fetch [OF a, of G2] a b show ?thesis by auto
qed

text \<open>
  C7. When every fetch has succeeded with an \<open>ok\<close> response, so that the cache has
  been opened, and \<open>cache.put\<close> rejects for some entry of the file list,
  \<open>CreateCacheFromFileList\<close> calls \<open>caches.delete\<close> on the cache it has just opened
  and throws the rejection on to its caller: afterwards no cache of that name exists and
  every other cache is as it was.
\<close>

theorem populate_write_failure_deletes_generation:
  assumes "fetch_all h files bypassCache s = (results, s1)"
    and "those results = Some responses"
    and "list_all ok responses"
    and "\<exists>u \<in> set files. put_rejects h cacheName (resolve h u)"
  shows "\<exists>key s'. CreateCacheFromFileList h cacheName files bypassCache s = (Some (PutRejected key), s')
           \<and> put_rejects h cacheName key
           \<and> opened (trace s') = opened (trace s) @ [cacheName]
           \<and> deleted (trace s') = deleted (trace s) @ [cacheName]
           \<and> \<not> caches_has cacheName s'
           \<and> caches s' = filter (\<lambda>c. fst c \<noteq> cacheName) (caches s)"
proof -
  define s2 where "s2 = caches_open cacheName (log_not_ok responses s1)"
  obtain e s3 where p: "put_all h cacheName (zip files responses) s2 = (e, s3)"
    by (cases "put_all h cacheName (zip files responses) s2")
  note fr = fetch_all_frame[OF assms(1)] and lg = log_not_ok_frame[of responses s1]
    and pa = put_all_frame[OF p]
  have len: "length responses = length files"
    using fr those_Some_all[OF assms(2)] by auto
  then have "fst ` set (zip files responses) = set files"
    by (metis map_fst_zip set_map)
  with pa assms(4) have "e \<noteq> None" by auto
  with pa obtain key where k: "e = Some (PutRejected key)" "put_rejects h cacheName key" by blast
  define s' where "s' = caches_delete cacheName (emit (ConsoleError (ErrorWritingCache (PutRejected key))) s3)"
  have res: "CreateCacheFromFileList h cacheName files bypassCache s = (Some (PutRejected key), s')"
    using assms(1,2,3) p k by (simp add: CreateCacheFromFileList_def s2_def s'_def)
  have op: "opened (trace s') = opened (trace s) @ [cacheName]"
    using fr lg pa by (simp add: s'_def s2_def caches_delete_frame emit_console_frame caches_open_frame)
  have de: "deleted (trace s') = deleted (trace s) @ [cacheName]"
    using fr lg pa by (simp add: s'_def s2_def caches_delete_frame emit_console_frame caches_open_frame)
  have nh: "\<not> caches_has cacheName s'" by (simp add: s'_def caches_delete_frame)
  have ca: "caches s' = filter (\<lambda>c. fst c \<noteq> cacheName) (caches s)"
    using fr lg pa by (simp add: s'_def s2_def caches_delete_frame emit_console_frame caches_open_frame)
  from res k(2) op de nh ca show ?thesis by blast
qed

theorem populate_write_failure_deletes_generation_witness:
  "(\<exists>u \<in> set [''a.js'', ''big.js'']. put_rejects demo_host G2 (resolve demo_host u))
   \<and> (\<exists>key s'. CreateCacheFromFileList demo_host G2 [''a.js'', ''big.js''] False fresh_state
                   = (Some (PutRejected key), s')
          \<and> opened (trace s') = [G2] \<and> deleted (trace s') = [G2]
          \<and> \<not> caches_has G2 s' \<and> caches s' = [])"
proof -
  define rs where "rs = [demo_response ''https://a.io/a.js'', demo_response ''https://a.io/big.js'']"
  have "fst (fetch_all demo_host [''a.js'', ''big.js''] False fresh_state) = map Some rs"
    by (simp add: rs_def fetchWithBypass_def demo_defs prim_defs)
  then have f: "fetch_all demo_host [''a.js'', ''big.js''] False fresh_state
                  = (map Some rs, snd (fetch_all demo_host [''a.js'', ''big.js''] False fresh_state))"
    by (metis prod.collapse)
  have t: "those (map Some rs) = Some rs" by (simp add: rs_def)
  have o: "list_all ok rs" by (simp add: rs_def demo_response_def)
  have p: "\<exists>u \<in> set [''a.js'', ''big.js'']. put_rejects demo_host G2 (resolve demo_host u)"
    by (simp add: demo_defs prim_defs)
  have b: "caches fresh_state = []" "opened (trace fresh_state) = []"
    "deleted (trace fresh_state) = []"
    by (simp_all add: fresh_state_def opened_def deleted_def)
  from populate_write_failure_deletes_generation [OF f t o p] p b show ?thesis by auto
qed

subsection \<open>Answering a request\<close>






subsection \<open>The update check\<close>

text \<open>
  C6. When the manifest is fetched and parsed and a cache named for its version exists,
  \<open>UpdateCheck\<close> sends the manifest request and no other, leaves every cache and the
  key/value store (the lazy-load list) as they were, logs and broadcasts
  \<open>update-pending\<close> when the generations listed number two or more and
  \<open>up-to-date\<close> when they number fewer, and does nothing else.
\<close>

theorem update_check_idle_when_generation_exists:
  assumes "network h (manifest_request h s) = Some resp"
    and "ok resp"
    and "json resp = Some data"
    and "caches_has (GetCacheVersionName h (version data)) s"
  shows "caches (UpdateCheck h isFirst s) = caches s
       \<and> localforage (UpdateCheck h isFirst s) = localforage s
       \<and> fetches (trace (UpdateCheck h isFirst s)) = fetches (trace s) @ [manifest_request h s]
       \<and> trace (UpdateCheck h isFirst s)
           = trace s @ [Fetch (manifest_request h s),
                        ConsoleLog (if 2 \<le> length (GetAvailableCacheNames h s)
                                    then LogUpdatePending else LogUpToDate)]
               @ (if haveBroadcastChannel h
                  then [PostMessage \<lparr>msg_type = (if 2 \<le> length (GetAvailableCacheNames h s)
                                                   then ''update-pending'' else ''up-to-date''),
                                      msg_version = None\<rparr>]
                  else [])"
proof -
  define s1 where "s1 = emit (Fetch (manifest_request h s)) (s\<lparr>randoms_used := Suc (randoms_used s)\<rparr>)"
  have has: "caches_has (GetCacheVersionName h (version data)) s1"
    using assms(4) by (simp add: s1_def caches_has_def caches_keys_def emit_def)
  have pend: "IsUpdatePending h s1 = (2 \<le> length (GetAvailableCacheNames h s))"
    by (simp add: s1_def IsUpdatePending_def available_emit available_randoms)
  have u: "UpdateCheck h isFirst s =
             (if 2 \<le> length (GetAvailableCacheNames h s)
              then Broadcast h ''update-pending'' (emit (ConsoleLog LogUpdatePending) s1)
              else Broadcast h ''up-to-date'' (emit (ConsoleLog LogUpToDate) s1))"
    using assms(1,2,3) has pend
    by (simp add: UpdateCheck_def UpdateCheck_try_def manifest_fetch s1_def[symmetric] Let_def)
  have t1: "trace s1 = trace s @ [Fetch (manifest_request h s)]" "caches s1 = caches s"
    "localforage s1 = localforage s"
    by (simp_all add: s1_def emit_def)
  show ?thesis
    by (simp add: u Broadcast_def post_frame emit_frame t1 fetches_def)
qed

theorem update_check_idle_when_generation_exists_witness:
  "GetAvailableCacheNames demo_host demo_state = [G1, G2]
   \<and> caches_has (GetCacheVersionName demo_host (version demo_manifest)) demo_state
   \<and> caches (UpdateCheck demo_host False demo_state) = caches demo_state
   \<and> localforage (UpdateCheck demo_host False demo_state) = localforage demo_state
   \<and> trace (UpdateCheck demo_host False demo_state)
       = [Fetch (manifest_request demo_host demo_state), ConsoleLog LogUpdatePending,
          PostMessage \<lparr>msg_type = ''update-pending'', msg_version = None\<rparr>]
   \<and> GetAvailableCacheNames demo_host single_state = [G2]
   \<and> caches_has (GetCacheVersionName demo_host (version demo_manifest)) single_state
   \<and> caches (UpdateCheck demo_host False single_state) = caches single_state
   \<and> localforage (UpdateCheck demo_host False single_state) = localforage single_state
   \<and> trace (UpdateCheck demo_host False single_state)
       = [Fetch (manifest_request demo_host single_state), ConsoleLog LogUpToDate,
          PostMessage \<lparr>msg_type = ''up-to-date'', msg_version = None\<rparr>]"
proof -
  have a: "network demo_host (manifest_request demo_host demo_state)
             = Some ((demo_response ''https://a.io/offline.js'')\<lparr>json := Some demo_manifest\<rparr>)"
    "network demo_host (manifest_request demo_host single_state)
             = Some ((demo_response ''https://a.io/offline.js'')\<lparr>json := Some demo_manifest\<rparr>)"
    by (simp_all add: manifest_request_def demo_defs prim_defs)
  have b: "ok ((demo_response ''https://a.io/offline.js'')\<lparr>json := Some demo_manifest\<rparr>)"
    by (simp add: demo_response_def)
  have c: "json ((demo_response ''https://a.io/offline.js'')\<lparr>json := Some demo_manifest\<rparr>)
             = Some demo_manifest"
    by simp
  have d: "caches_has (GetCacheVersionName demo_host (version demo_manifest)) demo_state"
    "caches_has (GetCacheVersionName demo_host (version demo_manifest)) single_state"
    by (simp_all add: demo_defs prim_defs)
  have e: "GetAvailableCacheNames demo_host demo_state = [G1, G2]"
    "GetAvailableCacheNames demo_host single_state = [G2]"
    by (simp_all add: demo_defs prim_defs)
  have f: "haveBroadcastChannel demo_host" "trace demo_state = []" "trace single_state = []"
    by (simp_all add: demo_defs)
  from update_check_idle_when_generation_exists [OF a(1) b c d(1), of False] d(1) e(1) f
  have two: "caches (UpdateCheck demo_host False demo_state) = caches demo_state
   \<and> localforage (UpdateCheck demo_host False demo_state) = localforage demo_state
   \<and> trace (UpdateCheck demo_host False demo_state)
       = [Fetch (manifest_request demo_host demo_state), ConsoleLog LogUpdatePending,
          PostMessage \<lparr>msg_type = ''update-pending'', msg_version = None\<rparr>]"
    by simp
  from update_check_idle_when_generation_exists [OF a(2) b c d(2), of False] d(2) e(2) f
  have one: "caches (UpdateCheck demo_host False single_state) = caches single_state
   \<and> localforage (UpdateCheck demo_host False single_state) = localforage single_state
   \<and> trace (UpdateCheck demo_host False single_state)
       = [Fetch (manifest_request demo_host single_state), ConsoleLog LogUpToDate,
          PostMessage \<lparr>msg_type = ''up-to-date'', msg_version = None\<rparr>]"
    by simp
  from two one d e show ?thesis by blast
qed

text \<open>
  C10. Every update check sends the manifest request first, and that request bypasses the
  HTTP cache (a random number on the query string, \<open>no-store\<close>) whether the check is
  the first or not. Every other request of the check is a file-list fetch of
  \<open>CreateCacheFromFileList\<close>: ordinary (no random number, default caching) in the first
  check, cache-bypassing in every later one; when the manifest is read and its generation
  does not exist yet, these are the fetches of the file list with the implicit pages in
  front, in order. The first check is the one the \<open>install\<close> listener runs; the
  \<open>fetch\<close> listener runs a later check after each navigation it has answered.
\<close>

theorem file_fetches_bypass_only_after_first_check:
  "(\<exists>rest. fetches (trace (UpdateCheck h isFirst s))
             = fetches (trace s) @ manifest_request h s # rest
         \<and> bypassing (manifest_request h s)
         \<and> (\<forall>r \<in> set rest. if isFirst then ordinary r else bypassing r)
         \<and> (\<forall>resp data. network h (manifest_request h s) = Some resp \<and> ok resp
               \<and> json resp = Some data
               \<and> \<not> caches_has (GetCacheVersionName h (version data)) s
              \<longrightarrow> map req_url rest
                    = map (resolve h) (add_implicit_pages (GetMainPageUrl h) (fileList data))))
   \<and> on_install h s = UpdateCheck h True s
   \<and> (\<forall>request r s1. url_origin h (req_url request) = origin h \<and> req_mode request = Navigate
          \<and> HandleFetch h request True s = (Inr r, s1)
         \<longrightarrow> on_fetch h request s = (Some (Inr r), UpdateCheck h False s1))"
proof (intro conjI)
  from UpdateCheck_try_fetches[of h isFirst s] obtain rest where
    r: "fetches (trace (snd (UpdateCheck_try h isFirst s)))
             = fetches (trace s) @ manifest_request h s # rest"
       "\<forall>r \<in> set rest. if isFirst then ordinary r else bypassing r"
       "\<forall>resp data. network h (manifest_request h s) = Some resp \<and> ok resp
               \<and> json resp = Some data
               \<and> \<not> caches_has (GetCacheVersionName h (version data)) s
              \<longrightarrow> map req_url rest
                    = map (resolve h) (add_implicit_pages (GetMainPageUrl h) (fileList data))"
    by blast
  show "\<exists>rest. fetches (trace (UpdateCheck h isFirst s))
             = fetches (trace s) @ manifest_request h s # rest
         \<and> bypassing (manifest_request h s)
         \<and> (\<forall>r \<in> set rest. if isFirst then ordinary r else bypassing r)
         \<and> (\<forall>resp data. network h (manifest_request h s) = Some resp \<and> ok resp
               \<and> json resp = Some data
               \<and> \<not> caches_has (GetCacheVersionName h (version data)) s
              \<longrightarrow> map req_url rest
                    = map (resolve h) (add_implicit_pages (GetMainPageUrl h) (fileList data)))"
    using r bypassing_manifest_request[of h s] unfolding UpdateCheck_fetches by blast
  show "on_install h s = UpdateCheck h True s" by (simp add: on_install_def)
  show "\<forall>request r s1. url_origin h (req_url request) = origin h \<and> req_mode request = Navigate
          \<and> HandleFetch h request True s = (Inr r, s1)
         \<longrightarrow> on_fetch h request s = (Some (Inr r), UpdateCheck h False s1)"
    by (simp add: on_fetch_def)
qed

theorem file_fetches_bypass_only_after_first_check_witness:
  "(\<exists>rest. fetches (trace (UpdateCheck demo_host True fresh_state))
             = manifest_request demo_host fresh_state # rest
         \<and> list_all ordinary rest
         \<and> map req_url rest = [''https://a.io/index.html'', ''https://a.io/'',
                                ''https://a.io/a.js'', ''https://a.io/b.js''])
   \<and> (\<exists>rest. fetches (trace (UpdateCheck demo_host False fresh_state))
             = manifest_request demo_host fresh_state # rest
         \<and> list_all bypassing rest
         \<and> map req_url rest = [''https://a.io/index.html'', ''https://a.io/'',
                                ''https://a.io/a.js'', ''https://a.io/b.js''])"
proof -
  have a: "network demo_host (manifest_request demo_host fresh_state)
             = Some ((demo_response ''https://a.io/offline.js'')\<lparr>json := Some demo_manifest\<rparr>)"
    by (simp add: manifest_request_def demo_defs prim_defs)
  have b: "ok ((demo_response ''https://a.io/offline.js'')\<lparr>json := Some demo_manifest\<rparr>)"
    "json ((demo_response ''https://a.io/offline.js'')\<lparr>json := Some demo_manifest\<rparr>)
       = Some demo_manifest"
    by (simp_all add: demo_response_def)
  have c: "\<not> caches_has (GetCacheVersionName demo_host (version demo_manifest)) fresh_state"
    by (simp add: fresh_state_def caches_has_def caches_keys_def)
  have d: "map (resolve demo_host) (add_implicit_pages (GetMainPageUrl demo_host) (fileList demo_manifest))
             = [''https://a.io/index.html'', ''https://a.io/'', ''https://a.io/a.js'', ''https://a.io/b.js'']"
    by (simp add: add_implicit_pages_def GetMainPageUrl_def demo_defs prim_defs)
  have e: "fetches (trace fresh_state) = []" by (simp add: fresh_state_def fetches_def)
  from file_fetches_bypass_only_after_first_check [of demo_host True fresh_state] a b c d e
  have one: "\<exists>rest. fetches (trace (UpdateCheck demo_host True fresh_state))
             = manifest_request demo_host fresh_state # rest
         \<and> list_all ordinary rest
         \<and> map req_url rest = [''https://a.io/index.html'', ''https://a.io/'',
                                ''https://a.io/a.js'', ''https://a.io/b.js'']"
    by (auto simp: list_all_iff)
  from file_fetches_bypass_only_after_first_check [of demo_host False fresh_state] a b c d e
  have two: "\<exists>rest. fetches (trace (UpdateCheck demo_host False fresh_state))
             = manifest_request demo_host fresh_state # rest
         \<and> list_all bypassing rest
         \<and> map req_url rest = [''https://a.io/index.html'', ''https://a.io/'',
                                ''https://a.io/a.js'', ''https://a.io/b.js'']"
    by (auto simp: list_all_iff)
  from one two show ?thesis by blast
qed

text \<open>
  C8, as the code has it. When the manifest is read and no cache named for its version
  exists, the file list that is fetched and stored is the manifest's list with \<open>./\<close>
  put in front and, in front of that, the main page URL inferred from the connected
  windows, unless there is none or the list (with \<open>./\<close>) already contains it. When all
  of these fetches are \<open>ok\<close> and no put rejects, the generation exists afterwards and
  holds entries for exactly: \<open>./\<close>, the main page URL when one was found, and every file
  of the manifest's list (URLs told apart as the cache does, without their fragments);
  \<open>cache.match\<close> finds each of them. When no main page URL is found, none is added.
\<close>

theorem update_check_caches_implicit_pages:
  assumes "network h (manifest_request h s) = Some resp"
    and "ok resp"
    and "json resp = Some data"
    and "name = GetCacheVersionName h (version data)"
    and "\<not> caches_has name s"
    and "files = add_implicit_pages (GetMainPageUrl h) (fileList data)"
    and "\<forall>r. req_url r \<in> resolve h ` set files \<longrightarrow> (\<exists>x. network h r = Some x \<and> ok x)"
    and "\<forall>u \<in> set files. \<not> put_rejects h name (resolve h u)"
  shows "files = (if GetMainPageUrl h \<noteq> '''' \<and> GetMainPageUrl h \<notin> set (''./'' # fileList data)
                  then [GetMainPageUrl h] else []) @ ''./'' # fileList data
       \<and> (\<exists>rest. fetches (trace (UpdateCheck h isFirst s))
                     = fetches (trace s) @ manifest_request h s # rest
                 \<and> map req_url rest = map (resolve h) files)
       \<and> caches_has name (UpdateCheck h isFirst s)
       \<and> cache_urls name (UpdateCheck h isFirst s)
           = without_fragment ` resolve h ` ({''./''} \<union> (if GetMainPageUrl h \<noteq> '''' then {GetMainPageUrl h} else {})
                           \<union> set (fileList data))
       \<and> (\<forall>u \<in> set files. cache_match name (resolve h u) (UpdateCheck h isFirst s) \<noteq> None)"
proof -
  define s1 where "s1 = emit (Fetch (manifest_request h s)) (s\<lparr>randoms_used := Suc (randoms_used s)\<rparr>)"
  define s4 where "s4 = announce_download h isFirst data files s1"
  note mf = manifest_fetch[of h s, folded s1_def]
  have c4: "caches s4 = caches s"
    by (simp add: s4_def announce_download_frame s1_def emit_def)
  from assms(5) have no: "\<not> caches_has name s1" "cache_urls name s4 = {}"
    using c4 by (auto simp: s1_def caches_has_def caches_keys_def emit_def cache_urls_def
        map_of_eq_None_iff[symmetric] split: option.splits)
  from populate_succeeds[OF assms(7,8), of "\<not> isFirst" s4] obtain s5 where
    p: "CreateCacheFromFileList h name files (\<not> isFirst) s4 = (None, s5)"
       "cache_urls name s5 = cache_urls name s4 \<union> without_fragment ` resolve h ` set files"
       "caches_has name s5"
    by blast
  have u: "UpdateCheck h isFirst s = announce_ready h data s5"
    using assms(1,2,3) no(1) p(1)
    by (simp add: UpdateCheck_def UpdateCheck_try_def mf assms(4)[symmetric] Let_def
        assms(6)[symmetric] s4_def[symmetric])
  have fl: "files = (if GetMainPageUrl h \<noteq> '''' \<and> GetMainPageUrl h \<notin> set (''./'' # fileList data)
                  then [GetMainPageUrl h] else []) @ ''./'' # fileList data"
    by (simp add: assms(6) add_implicit_pages_def Let_def)
  have st: "set files = {''./''} \<union> (if GetMainPageUrl h \<noteq> '''' then {GetMainPageUrl h} else {})
                           \<union> set (fileList data)"
    by (auto simp: fl)
  have hs: "caches_has name (UpdateCheck h isFirst s)"
    using p(3) by (simp add: u caches_has_caches[OF announce_ready_frame(1)])
  have uf: "cache_urls name (UpdateCheck h isFirst s) = without_fragment ` resolve h ` set files"
    using p(2) no(2) by (simp add: u cache_urls_caches[OF announce_ready_frame(1)])
  have cm: "\<forall>u \<in> set files. cache_match name (resolve h u) (UpdateCheck h isFirst s) \<noteq> None"
    unfolding cache_urls_match uf by blast
  from uf have us: "cache_urls name (UpdateCheck h isFirst s)
           = without_fragment ` resolve h ` ({''./''} \<union> (if GetMainPageUrl h \<noteq> '''' then {GetMainPageUrl h} else {})
                           \<union> set (fileList data))"
    by (simp only: st)
  from UpdateCheck_try_fetches[of h isFirst s] assms(1,2,3,4,5,6)
  have fs: "\<exists>rest. fetches (trace (UpdateCheck h isFirst s))
                     = fetches (trace s) @ manifest_request h s # rest
                 \<and> map req_url rest = map (resolve h) files"
    unfolding UpdateCheck_fetches by blast
  from fl fs hs us cm show ?thesis by blast
qed

theorem update_check_caches_implicit_pages_witness:
  "GetMainPageUrl demo_host = ''index.html''
   \<and> map req_url (tl (fetches (trace (UpdateCheck demo_host True fresh_state))))
       = [''https://a.io/index.html'', ''https://a.io/'', ''https://a.io/a.js'', ''https://a.io/b.js'']
   \<and> caches_has G2 (UpdateCheck demo_host True fresh_state)
   \<and> cache_urls G2 (UpdateCheck demo_host True fresh_state)
       = {''https://a.io/index.html'', ''https://a.io/'', ''https://a.io/a.js'', ''https://a.io/b.js''}"
proof -
  define files where "files = add_implicit_pages (GetMainPageUrl demo_host) (fileList demo_manifest)"
  have m: "GetMainPageUrl demo_host = ''index.html''"
    by (simp add: GetMainPageUrl_def demo_defs prim_defs)
  have fl: "files = [''index.html'', ''./'', ''a.js'', ''b.js'']"
    by (simp add: files_def m add_implicit_pages_def demo_manifest_def)
  have a: "network demo_host (manifest_request demo_host fresh_state)
             = Some ((demo_response ''https://a.io/offline.js'')\<lparr>json := Some demo_manifest\<rparr>)"
    by (simp add: manifest_request_def demo_defs prim_defs)
  have b: "ok ((demo_response ''https://a.io/offline.js'')\<lparr>json := Some demo_manifest\<rparr>)"
    by (simp add: demo_response_def)
  have c: "json ((demo_response ''https://a.io/offline.js'')\<lparr>json := Some demo_manifest\<rparr>)
             = Some demo_manifest"
    by simp
  have d: "G2 = GetCacheVersionName demo_host (version demo_manifest)"
    by (simp add: demo_defs prim_defs)
  have e: "\<not> caches_has G2 fresh_state"
    by (simp add: fresh_state_def caches_has_def caches_keys_def)
  have f: "\<forall>r. req_url r \<in> resolve demo_host ` set files
             \<longrightarrow> (\<exists>x. network demo_host r = Some x \<and> ok x)"
    by (auto simp: fl demo_defs prim_defs)
  have g: "\<forall>u \<in> set files. \<not> put_rejects demo_host G2 (resolve demo_host u)"
    by (simp add: fl demo_defs prim_defs)
  have r: "without_fragment ` resolve demo_host ` ({''./''} \<union> (if GetMainPageUrl demo_host \<noteq> ''''
                                              then {GetMainPageUrl demo_host} else {})
                                 \<union> set (fileList demo_manifest))
             = {''https://a.io/index.html'', ''https://a.io/'', ''https://a.io/a.js'', ''https://a.io/b.js''}"
    by (simp add: m) (simp add: demo_defs prim_defs)
  have t: "fetches (trace fresh_state) = []" by (simp add: fresh_state_def fetches_def)
  have rl: "map (resolve demo_host) files
              = [''https://a.io/index.html'', ''https://a.io/'', ''https://a.io/a.js'', ''https://a.io/b.js'']"
    by (simp add: fl demo_defs prim_defs)
  from update_check_caches_implicit_pages [OF a b c d e files_def f g, of True]
  obtain rest where
    x: "fetches (trace (UpdateCheck demo_host True fresh_state))
          = fetches (trace fresh_state) @ manifest_request demo_host fresh_state # rest"
       "map req_url rest = map (resolve demo_host) files"
    and y: "caches_has G2 (UpdateCheck demo_host True fresh_state)"
    and z: "cache_urls G2 (UpdateCheck demo_host True fresh_state)
              = without_fragment ` resolve demo_host ` ({''./''} \<union> (if GetMainPageUrl demo_host \<noteq> ''''
                                                      then {GetMainPageUrl demo_host} else {})
                                       \<union> set (fileList demo_manifest))"
    by blast
  from x t have "tl (fetches (trace (UpdateCheck demo_host True fresh_state))) = rest" by simp
  with x(2) rl have w: "map req_url (tl (fetches (trace (UpdateCheck demo_host True fresh_state))))
       = [''https://a.io/index.html'', ''https://a.io/'', ''https://a.io/a.js'', ''https://a.io/b.js'']"
    by simp
  from m w y z r show ?thesis by (simp only: simp_thms)
qed

text \<open>
  C8 as the specification states it fails where the manifest already lists the main page:
  the window at \<open>https://a.io/index.html\<close> gives the main page URL \<open>index.html\<close>,
  the manifest lists \<open>index.html\<close> and \<open>a.js\<close>, and the first check fetches
  \<open>./\<close>, \<open>index.html\<close>, \<open>a.js\<close>: the main page URL is not put in front.
\<close>

theorem listed_main_page_not_prepended:
  "GetMainPageUrl index_host = ''index.html''
   \<and> map req_url (fetches (trace (UpdateCheck index_host True fresh_state)))
       = [''https://a.io/offline.js'', ''https://a.io/'', ''https://a.io/index.html'',
          ''https://a.io/a.js'']
   \<and> map (resolve index_host)
         (prepend_root_and_main_page (GetMainPageUrl index_host) (fileList index_manifest))
       = [''https://a.io/index.html'', ''https://a.io/'', ''https://a.io/index.html'',
          ''https://a.io/a.js'']"
  by (simp add: UpdateCheck_def UpdateCheck_try_def CreateCacheFromFileList_def
      fetchWithBypass_def announce_download_def announce_ready_def add_implicit_pages_def
      prepend_root_and_main_page_def GetMainPageUrl_def fetches_def Let_def
      demo_defs prim_defs)

end
